theory Spec2Isabelle
  imports Complex_Main "HOL-Library.Log_Nat"
begin

section \<open>Data model\<close>

text \<open>
  The planner hands the application a plan: a Python list of configurations, each a list
  holding one position per agent; a position is a tuple of two integers (row, column).
  \<open>starts\<close> and \<open>goals\<close> are configurations too. The planner signals failure by an
  empty plan; the argument may also be \<open>None\<close>, which is why \<open>calculate_metrics\<close> below
  takes a \<open>plan option\<close>.
\<close>

type_synonym position = "int \<times> int"
type_synonym config = "position list"
type_synonym plan = "config list"

text \<open>The exceptions the metrics code can raise on well-typed arguments.\<close>

datatype py_error = IndexError | ZeroDivisionError

text \<open>
  A Python float that is not an infinity or a NaN: an IEEE 754 binary64 number, given by
  its sign bit and its magnitude. The magnitude is kept as the rational number the double
  stands for; the sign bit tells \<open>-0.0\<close> from \<open>0.0\<close>.
\<close>

datatype double = Double (negative: bool) (magnitude: rat)

text \<open>
  The values stored in the dictionary that \<open>calculate_metrics\<close> returns. The elapsed time
  is supplied by the caller and only passed through, so its type is a parameter.
\<close>

datatype 't py_value = PyBool bool | PyInt int | PyFloat double | PyTime 't

text \<open>
  A Python dictionary literal, as the list of its items in insertion order. The keys of
  the literals below are pairwise distinct.
\<close>

type_synonym 't metrics = "(string \<times> 't py_value) list"

definition dict_get :: "'t metrics \<Rightarrow> string \<Rightarrow> 't py_value option" where
  "dict_get d k = map_of d k"

section \<open>Python primitives used by the metrics code\<close>

text \<open>
  \<open>xs[i]\<close> on a list: a negative index counts from the end, and an index outside the
  list raises \<open>IndexError\<close>.
\<close>

definition getitem :: "'a list \<Rightarrow> int \<Rightarrow> py_error + 'a" where
  "getitem xs i =
     (let j = (if i < 0 then i + int (length xs) else i)
      in if 0 \<le> j \<and> j < int (length xs) then Inr (xs ! nat j) else Inl IndexError)"

text \<open>
  \<open>a / b\<close> on two integers is the double nearest to the exact quotient, with ties going
  to the double whose last mantissa bit is zero. \<open>round_half_even\<close> is that rounding on
  the integers.
\<close>

definition round_half_even :: "rat \<Rightarrow> int" where
  "round_half_even x =
     (let n = \<lfloor>x\<rfloor>; r = x - of_int n
      in if r < 1 / 2 then n else if 1 / 2 < r then n + 1 else if even n then n else n + 1)"

text \<open>
  For positive \<open>a\<close> and \<open>b\<close>, the exponent \<open>e\<close> with \<open>2 ^ e \<le> a / b < 2 ^ (e + 1)\<close>, found
  from the bit lengths of the two integers.
\<close>

definition quotient_exponent :: "int \<Rightarrow> int \<Rightarrow> int" where
  "quotient_exponent a b =
     (let d = bitlen a - bitlen b
      in if (2 :: rat) powi d \<le> of_int a / of_int b then d else d - 1)"

text \<open>
  The magnitude of the double nearest to \<open>a / b\<close> for positive \<open>a\<close> and \<open>b\<close>. A double
  has 53 mantissa bits, so the quotient is rounded to a multiple of \<open>2 ^ (e - 52)\<close>; below
  the normal range the spacing stays at \<open>2 ^ - 1074\<close>, that of the subnormal numbers.
\<close>

definition round_to_double :: "int \<Rightarrow> int \<Rightarrow> rat" where
  "round_to_double a b =
     (let e = max (quotient_exponent a b - 52) (- 1074)
      in of_int (round_half_even (of_int a / of_int b / 2 powi e)) * 2 powi e)"

text \<open>
  The value of \<open>a / b\<close> for a divisor other than zero. The sign bit is set when exactly one
  operand is negative, also for a zero dividend (\<open>0 / -5\<close> is \<open>-0.0\<close>).
\<close>

definition quotient_double :: "int \<Rightarrow> int \<Rightarrow> double" where
  "quotient_double a b =
     (if a = 0 then Double (b < 0) 0
      else Double ((a < 0) \<noteq> (b < 0)) (round_to_double \<bar>a\<bar> \<bar>b\<bar>))"

text \<open>
  \<open>a / b\<close> on two integers: \<open>ZeroDivisionError\<close> when \<open>b\<close> is zero. CPython also raises
  \<open>OverflowError\<close> when the rounded quotient reaches \<open>2 ^ 1024\<close>. The quotient that
  \<open>calculate_metrics\<close> forms is at most \<open>len(plan)\<close> (lemma \<open>average_at_most_length\<close>
  below), and a list holds fewer than \<open>2 ^ 63\<close> items, so that exception is out of reach of
  the function and has no branch here.
\<close>

definition truediv :: "int \<Rightarrow> int \<Rightarrow> py_error + double" where
  "truediv a b = (if b = 0 then Inl ZeroDivisionError else Inr (quotient_double a b))"

section \<open>calculate\_metrics\<close>

text \<open>
  The function \<open>calculate_metrics(plan, starts, goals, computation_time)\<close> of
  \<open>app.py\<close> (lines 19 to 49), from the inside out.
\<close>

text \<open>
  The inner loop, \<open>for timestep in range(len(plan))\<close>: the list argument holds the
  timesteps still to visit and \<open>len\<close> is the current value of the variable
  \<open>agent_path_length\<close>. Each visit reads \<open>plan[timestep][agent_id]\<close> and, when that
  position differs from the goal, overwrites the variable with \<open>timestep + 1\<close>.
\<close>

fun timestep_loop :: "plan \<Rightarrow> nat \<Rightarrow> position \<Rightarrow> nat list \<Rightarrow> int \<Rightarrow> py_error + int" where
  "timestep_loop plan agent_id goal_position [] len = Inr len"
| "timestep_loop plan agent_id goal_position (timestep # rest) len =
     (case getitem plan (int timestep) of
        Inl e \<Rightarrow> Inl e
      | Inr configuration \<Rightarrow>
          (case getitem configuration (int agent_id) of
             Inl e \<Rightarrow> Inl e
           | Inr pos \<Rightarrow>
               timestep_loop plan agent_id goal_position rest
                 (if pos \<noteq> goal_position then int timestep + 1 else len)))"

text \<open>
  The body of the outer loop up to the point where the path length of one agent is known:
  \<open>goal_position = goals[agent_id]\<close>, \<open>agent_path_length = 0\<close>, then the inner loop.
\<close>

definition agent_path_length :: "plan \<Rightarrow> config \<Rightarrow> nat \<Rightarrow> py_error + int" where
  "agent_path_length plan goals agent_id =
     (case getitem goals (int agent_id) of
        Inl e \<Rightarrow> Inl e
      | Inr goal_position \<Rightarrow>
          timestep_loop plan agent_id goal_position [0..<length plan] 0)"

text \<open>
  The outer loop, \<open>for agent_id in range(number_of_agents)\<close>, with the running
  \<open>sum_of_costs\<close>.
\<close>

fun agent_loop :: "plan \<Rightarrow> config \<Rightarrow> nat list \<Rightarrow> int \<Rightarrow> py_error + int" where
  "agent_loop plan goals [] sum_of_costs = Inr sum_of_costs"
| "agent_loop plan goals (agent_id # rest) sum_of_costs =
     (case agent_path_length plan goals agent_id of
        Inl e \<Rightarrow> Inl e
      | Inr len \<Rightarrow> agent_loop plan goals rest (sum_of_costs + len))"

text \<open>
  \<open>all(final_positions[i] == goals[i] for i in range(number_of_agents))\<close>: the generator
  is consumed lazily, so the first index that compares unequal ends the evaluation with
  \<open>False\<close>, and an index out of range raises.
\<close>

fun all_reached :: "config \<Rightarrow> config \<Rightarrow> nat list \<Rightarrow> py_error + bool" where
  "all_reached final_positions goals [] = Inr True"
| "all_reached final_positions goals (i # rest) =
     (case getitem final_positions (int i) of
        Inl e \<Rightarrow> Inl e
      | Inr pos \<Rightarrow>
          (case getitem goals (int i) of
             Inl e \<Rightarrow> Inl e
           | Inr goal \<Rightarrow>
               if pos = goal then all_reached final_positions goals rest else Inr False))"

text \<open>
  The function itself. \<open>not plan\<close> holds for \<open>None\<close> and for the empty list. The items
  of the returned dictionary are evaluated in the order they are written, so the division
  is reached only after both loops and the goal test have run without an exception.
\<close>

definition failed_metrics :: "'t \<Rightarrow> 't metrics" where
  "failed_metrics computation_time =
     [(''success'', PyBool False), (''computation_time'', PyTime computation_time)]"

definition metrics_of_plan :: "plan \<Rightarrow> config \<Rightarrow> config \<Rightarrow> 't \<Rightarrow> py_error + 't metrics" where
  "metrics_of_plan plan starts goals computation_time =
     (let number_of_agents = length starts;
          makespan = int (length plan) - 1
      in case agent_loop plan goals [0..<number_of_agents] 0 of
           Inl e \<Rightarrow> Inl e
         | Inr sum_of_costs \<Rightarrow>
             (case getitem plan (- 1) of
                Inl e \<Rightarrow> Inl e
              | Inr final_positions \<Rightarrow>
                  (case all_reached final_positions goals [0..<number_of_agents] of
                     Inl e \<Rightarrow> Inl e
                   | Inr all_reached_goals \<Rightarrow>
                       (case truediv sum_of_costs (int number_of_agents) of
                          Inl e \<Rightarrow> Inl e
                        | Inr average \<Rightarrow>
                            Inr [(''number_of_agents'', PyInt (int number_of_agents)),
                                 (''success'', PyBool all_reached_goals),
                                 (''makespan'', PyInt makespan),
                                 (''sum_of_costs'', PyInt sum_of_costs),
                                 (''average_path_length'', PyFloat average),
                                 (''total_timesteps'', PyInt (int (length plan))),
                                 (''computation_time'', PyTime computation_time)]))))"

definition calculate_metrics ::
  "plan option \<Rightarrow> config \<Rightarrow> config \<Rightarrow> 't \<Rightarrow> py_error + 't metrics" where
  "calculate_metrics plan starts goals computation_time =
     (case plan of
        None \<Rightarrow> Inr (failed_metrics computation_time)
      | Some p \<Rightarrow>
          if p = [] then Inr (failed_metrics computation_time)
          else metrics_of_plan p starts goals computation_time)"

section \<open>calculate\_metrics over a store\<close>

text \<open>
  Python hands \<open>calculate_metrics\<close> references: \<open>plan\<close>, \<open>starts\<close> and \<open>goals\<close> are list
  objects that live in the store of the caller, and the lists inside \<open>plan\<close> are objects of
  their own, which other names may share (the planner may well put the very list \<open>starts\<close>
  into the plan). Whether a call changes its arguments can only be said with that store
  in the model. This section gives the function once more, from the same lines of
  \<open>app.py\<close>, with every list access written as an operation on the store.
\<close>

text \<open>
  An address names a list object. A list of positions is a configuration, \<open>starts\<close> or
  \<open>goals\<close>; a list of references is a plan. Tuples, integers and floats are immutable and
  are kept as values.
\<close>

type_synonym addr = nat

datatype py_object = PositionList "position list" | ReferenceList "addr list"

type_synonym heap = "addr \<Rightarrow> py_object option"

text \<open>
  A step on the store returns a value or raises, and leaves a store behind. It is stuck
  when an address holds no object of the kind the step reads, which arguments of the
  types above never cause.
\<close>

datatype fault = Raise py_error | Stuck

type_synonym 'a outcome = "fault + 'a"

definition lift :: "py_error + 'a \<Rightarrow> 'a outcome" where
  "lift res = (case res of Inl e \<Rightarrow> Inl (Raise e) | Inr v \<Rightarrow> Inr v)"

definition return_h :: "'a \<Rightarrow> heap \<Rightarrow> 'a outcome \<times> heap" where
  "return_h v h = (Inr v, h)"

text \<open>Sequencing: a fault ends the computation, a value goes on to the next step.\<close>

definition bind_h ::
  "(heap \<Rightarrow> 'a outcome \<times> heap) \<Rightarrow> ('a \<Rightarrow> heap \<Rightarrow> 'b outcome \<times> heap) \<Rightarrow>
   heap \<Rightarrow> 'b outcome \<times> heap" where
  "bind_h m k h = (case m h of (Inl f, h') \<Rightarrow> (Inl f, h') | (Inr v, h') \<Rightarrow> k v h')"

text \<open>\<open>len(xs)\<close> and \<open>xs[i]\<close> on a list object, for the two kinds of list.\<close>

definition len_positions :: "addr \<Rightarrow> heap \<Rightarrow> nat outcome \<times> heap" where
  "len_positions a h =
     (case h a of Some (PositionList ps) \<Rightarrow> (Inr (length ps), h) | _ \<Rightarrow> (Inl Stuck, h))"

definition len_references :: "addr \<Rightarrow> heap \<Rightarrow> nat outcome \<times> heap" where
  "len_references a h =
     (case h a of Some (ReferenceList cs) \<Rightarrow> (Inr (length cs), h) | _ \<Rightarrow> (Inl Stuck, h))"

definition getitem_positions :: "addr \<Rightarrow> int \<Rightarrow> heap \<Rightarrow> position outcome \<times> heap" where
  "getitem_positions a i h =
     (case h a of Some (PositionList ps) \<Rightarrow> (lift (getitem ps i), h) | _ \<Rightarrow> (Inl Stuck, h))"

definition getitem_references :: "addr \<Rightarrow> int \<Rightarrow> heap \<Rightarrow> addr outcome \<times> heap" where
  "getitem_references a i h =
     (case h a of Some (ReferenceList cs) \<Rightarrow> (lift (getitem cs i), h) | _ \<Rightarrow> (Inl Stuck, h))"

text \<open>\<open>plan[timestep][agent_id]\<close>: the configuration is fetched first, then the position.\<close>

definition read_cell :: "addr \<Rightarrow> nat \<Rightarrow> nat \<Rightarrow> heap \<Rightarrow> position outcome \<times> heap" where
  "read_cell plan timestep agent_id =
     bind_h (getitem_references plan (int timestep))
       (\<lambda>configuration. getitem_positions configuration (int agent_id))"

text \<open>The inner loop (lines 32 to 34).\<close>

fun timestep_loop_h ::
  "addr \<Rightarrow> nat \<Rightarrow> position \<Rightarrow> nat list \<Rightarrow> int \<Rightarrow> heap \<Rightarrow> int outcome \<times> heap" where
  "timestep_loop_h plan agent_id goal_position [] len h = (Inr len, h)"
| "timestep_loop_h plan agent_id goal_position (timestep # rest) len h =
     (case read_cell plan timestep agent_id h of
        (Inl f, h') \<Rightarrow> (Inl f, h')
      | (Inr pos, h') \<Rightarrow>
          timestep_loop_h plan agent_id goal_position rest
            (if pos \<noteq> goal_position then int timestep + 1 else len) h')"

text \<open>
  Lines 30 to 34: \<open>goals[agent_id]\<close>, then \<open>range(len(plan))\<close>, then the inner loop.
\<close>

definition agent_path_length_h :: "addr \<Rightarrow> addr \<Rightarrow> nat \<Rightarrow> heap \<Rightarrow> int outcome \<times> heap" where
  "agent_path_length_h plan goals agent_id =
     bind_h (getitem_positions goals (int agent_id))
       (\<lambda>goal_position.
          bind_h (len_references plan)
            (\<lambda>n. timestep_loop_h plan agent_id goal_position [0..<n] 0))"

text \<open>The outer loop (lines 29 to 35).\<close>

fun agent_loop_h :: "addr \<Rightarrow> addr \<Rightarrow> nat list \<Rightarrow> int \<Rightarrow> heap \<Rightarrow> int outcome \<times> heap" where
  "agent_loop_h plan goals [] sum_of_costs h = (Inr sum_of_costs, h)"
| "agent_loop_h plan goals (agent_id # rest) sum_of_costs h =
     (case agent_path_length_h plan goals agent_id h of
        (Inl f, h') \<Rightarrow> (Inl f, h')
      | (Inr len, h') \<Rightarrow> agent_loop_h plan goals rest (sum_of_costs + len) h')"

text \<open>
  \<open>final_positions[i] == goals[i]\<close> and the lazy \<open>all(...)\<close> over it (line 39);
  \<open>final_positions\<close> is a reference to the last configuration of the plan.
\<close>

definition compare_cell :: "addr \<Rightarrow> addr \<Rightarrow> nat \<Rightarrow> heap \<Rightarrow> bool outcome \<times> heap" where
  "compare_cell final_positions goals i =
     bind_h (getitem_positions final_positions (int i))
       (\<lambda>pos. bind_h (getitem_positions goals (int i)) (\<lambda>goal. return_h (pos = goal)))"

fun all_reached_h :: "addr \<Rightarrow> addr \<Rightarrow> nat list \<Rightarrow> heap \<Rightarrow> bool outcome \<times> heap" where
  "all_reached_h final_positions goals [] h = (Inr True, h)"
| "all_reached_h final_positions goals (i # rest) h =
     (case compare_cell final_positions goals i h of
        (Inl f, h') \<Rightarrow> (Inl f, h')
      | (Inr equal, h') \<Rightarrow>
          if equal then all_reached_h final_positions goals rest h' else (Inr False, h'))"

text \<open>
  Lines 24 to 49 for a plan that is not empty, in the order of evaluation: \<open>len(starts)\<close>,
  \<open>len(plan)\<close> for the makespan, the loops, \<open>plan[-1]\<close>, the goal test, and the items of the
  dictionary, among them the division and \<open>len(plan)\<close> once more.
\<close>

definition metrics_of_plan_h ::
  "addr \<Rightarrow> addr \<Rightarrow> addr \<Rightarrow> 't \<Rightarrow> heap \<Rightarrow> 't metrics outcome \<times> heap" where
  "metrics_of_plan_h plan starts goals computation_time =
     bind_h (len_positions starts) (\<lambda>number_of_agents.
     bind_h (len_references plan) (\<lambda>len_plan.
     bind_h (agent_loop_h plan goals [0..<number_of_agents] 0) (\<lambda>sum_of_costs.
     bind_h (getitem_references plan (- 1)) (\<lambda>final_positions.
     bind_h (all_reached_h final_positions goals [0..<number_of_agents]) (\<lambda>all_reached_goals.
     bind_h (\<lambda>h. (lift (truediv sum_of_costs (int number_of_agents)), h)) (\<lambda>average.
     bind_h (len_references plan) (\<lambda>total_timesteps.
     return_h [(''number_of_agents'', PyInt (int number_of_agents)),
               (''success'', PyBool all_reached_goals),
               (''makespan'', PyInt (int len_plan - 1)),
               (''sum_of_costs'', PyInt sum_of_costs),
               (''average_path_length'', PyFloat average),
               (''total_timesteps'', PyInt (int total_timesteps)),
               (''computation_time'', PyTime computation_time)])))))))"

text \<open>
  The function: \<open>not plan\<close> holds for \<open>None\<close> and for a list object of length zero.
\<close>

definition calculate_metrics_h ::
  "addr option \<Rightarrow> addr \<Rightarrow> addr \<Rightarrow> 't \<Rightarrow> heap \<Rightarrow> 't metrics outcome \<times> heap" where
  "calculate_metrics_h plan starts goals computation_time =
     (case plan of
        None \<Rightarrow> return_h (failed_metrics computation_time)
      | Some p \<Rightarrow>
          bind_h (len_references p)
            (\<lambda>n. if n = 0 then return_h (failed_metrics computation_time)
                 else metrics_of_plan_h p starts goals computation_time))"

text \<open>
  When a store and three references stand for given argument values: \<open>starts\<close> and
  \<open>goals\<close> are the lists at their addresses, and the plan, unless it is \<open>None\<close>, is a list
  of references to the configurations. Nothing is said about sharing, so the same list
  object may occur in several places.
\<close>

definition holds_plan :: "heap \<Rightarrow> addr \<Rightarrow> plan \<Rightarrow> bool" where
  "holds_plan h a p \<longleftrightarrow>
     (\<exists>cs. h a = Some (ReferenceList cs) \<and>
        list_all2 (\<lambda>c ps. h c = Some (PositionList ps)) cs p)"

definition represents ::
  "heap \<Rightarrow> addr option \<Rightarrow> addr \<Rightarrow> addr \<Rightarrow> plan option \<Rightarrow> config \<Rightarrow> config \<Rightarrow> bool" where
  "represents h plan_ref starts_ref goals_ref plan starts goals \<longleftrightarrow>
     h starts_ref = Some (PositionList starts) \<and>
     h goals_ref = Some (PositionList goals) \<and>
     (case plan of
        None \<Rightarrow> plan_ref = None
      | Some p \<Rightarrow> (\<exists>a. plan_ref = Some a \<and> holds_plan h a p))"

section \<open>The solution validator\<close>

text \<open>
  \<open>main\<close> calls \<open>is_valid_mapf_solution(grid, starts, goals, plan)\<close>, which it imports
  from the package \<open>pypibt\<close>; the function is not part of \<open>app.py\<close>. The definitions
  of this section follow section 4.1 of the specification.
\<close>

text \<open>Modelled from the spec: the grid, which the validator consults only through
  \<open>is_walkable(Position)\<close> and \<open>neighbors4(Position)\<close> (section 6); the grid loader is
  missing.
\<close>

record grid =
  is_walkable :: "position \<Rightarrow> bool"
  neighbors4 :: "position \<Rightarrow> position set"

text \<open>Modelled from the spec: the failure kinds of section 7 and the verdict of section 3, a
  success flag and, on failure, the kind, the offending timestep and the offending agents.
\<close>

datatype failure_kind =
  EMPTY_PLAN | START_MISMATCH | BLOCKED_CELL | ILLEGAL_MOVE | VERTEX_COLLISION | EDGE_SWAP
  | GOAL_NOT_REACHED

datatype verdict = Success | Failure failure_kind nat "nat list"

text \<open>Modelled from the spec: an input contract violation (mismatched array lengths), which
  fails at the boundary of the validator instead of producing a verdict (section 7).
\<close>

datatype contract_violation = MismatchedLengths

text \<open>Modelled from the spec: cell validity of one transition, the agents whose position in
  the target configuration is not walkable.
\<close>

definition blocked_agents :: "grid \<Rightarrow> nat \<Rightarrow> config \<Rightarrow> nat list" where
  "blocked_agents g n c' = filter (\<lambda>i. \<not> is_walkable g (c' ! i)) [0..<n]"

text \<open>Modelled from the spec: move legality, the agents whose new position is neither their
  old one (a wait) nor one of its four neighbours.
\<close>

definition illegal_movers :: "grid \<Rightarrow> nat \<Rightarrow> config \<Rightarrow> config \<Rightarrow> nat list" where
  "illegal_movers g n c c' =
     filter (\<lambda>i. c' ! i \<noteq> c ! i \<and> c' ! i \<notin> neighbors4 g (c ! i)) [0..<n]"

text \<open>Modelled from the spec: vertex collision, the agents that share their position in the
  target configuration with another agent.
\<close>

definition vertex_colliders :: "nat \<Rightarrow> config \<Rightarrow> nat list" where
  "vertex_colliders n c' =
     filter (\<lambda>i. \<exists>j \<in> set [0..<n]. j \<noteq> i \<and> c' ! j = c' ! i) [0..<n]"

text \<open>Modelled from the spec: edge collision, the agents that swap positions with another
  agent (the old cell of one is the new cell of the other, both ways).
\<close>

definition swappers :: "nat \<Rightarrow> config \<Rightarrow> config \<Rightarrow> nat list" where
  "swappers n c c' =
     filter (\<lambda>i. \<exists>j \<in> set [0..<n]. j \<noteq> i \<and> c ! i = c' ! j \<and> c ! j = c' ! i) [0..<n]"

text \<open>Modelled from the spec: the four checks of the transition from timestep \<open>t\<close> to
  \<open>t + 1\<close>, in the order of section 4.1, stopping at the first that fails. The timestep
  reported is the one of the target configuration.
\<close>

definition check_transition :: "grid \<Rightarrow> nat \<Rightarrow> nat \<Rightarrow> config \<Rightarrow> config \<Rightarrow> verdict" where
  "check_transition g n t c c' =
     (if blocked_agents g n c' \<noteq> [] then Failure BLOCKED_CELL (Suc t) (blocked_agents g n c')
      else if illegal_movers g n c c' \<noteq> []
        then Failure ILLEGAL_MOVE (Suc t) (illegal_movers g n c c')
      else if vertex_colliders n c' \<noteq> []
        then Failure VERTEX_COLLISION (Suc t) (vertex_colliders n c')
      else if swappers n c c' \<noteq> [] then Failure EDGE_SWAP (Suc t) (swappers n c c')
      else Success)"

text \<open>Modelled from the spec: the per-transition checks over each consecutive pair of
  configurations, stopping at the first failure.
\<close>

fun check_transitions :: "grid \<Rightarrow> nat \<Rightarrow> nat \<Rightarrow> plan \<Rightarrow> verdict" where
  "check_transitions g n t (c # c' # rest) =
     (case check_transition g n t c c' of
        Success \<Rightarrow> check_transitions g n (Suc t) (c' # rest)
      | Failure k s as \<Rightarrow> Failure k s as)"
| "check_transitions g n t cs = Success"

text \<open>Modelled from the spec: the checks of section 4.1 in order. An empty plan fails with
  \<open>EMPTY_PLAN\<close>; the initial configuration must equal \<open>starts\<close>; every transition must
  pass; in the final configuration every agent must be at its goal, and
  \<open>GOAL_NOT_REACHED\<close> carries the agents that are not.
\<close>

definition validate :: "grid \<Rightarrow> config \<Rightarrow> config \<Rightarrow> plan \<Rightarrow> verdict" where
  "validate g starts goals plan =
     (let n = length starts in
      if plan = [] then Failure EMPTY_PLAN 0 []
      else if hd plan \<noteq> starts
        then Failure START_MISMATCH 0 (filter (\<lambda>i. hd plan ! i \<noteq> starts ! i) [0..<n])
      else case check_transitions g n 0 plan of
             Failure k s as \<Rightarrow> Failure k s as
           | Success \<Rightarrow>
               (let late = filter (\<lambda>i. last plan ! i \<noteq> goals ! i) [0..<n]
                in if late \<noteq> [] then Failure GOAL_NOT_REACHED (length plan - 1) late
                   else Success))"

text \<open>Modelled from the spec: \<open>is_valid_mapf_solution\<close>, the validator \<open>main\<close> calls, with
  the precondition of section 4.1 checked at the boundary: \<open>starts\<close>, \<open>goals\<close> and every
  configuration have one entry per agent.
\<close>

definition is_valid_mapf_solution ::
  "grid \<Rightarrow> config \<Rightarrow> config \<Rightarrow> plan \<Rightarrow> contract_violation + verdict" where
  "is_valid_mapf_solution g starts goals plan =
     (if length goals \<noteq> length starts \<or> (\<exists>c \<in> set plan. length c \<noteq> length starts)
      then Inl MismatchedLengths
      else Inr (validate g starts goals plan))"

section \<open>Specification-side definitions\<close>

text \<open>
  The per-agent path length in the words of the specification: one more than the largest
  timestep at which the agent's position differs from its goal, and zero when there is no
  such timestep. This definition is written from the specification, not from the code;
  the theorems below compare the loops of \<open>calculate_metrics\<close> with it.
\<close>

definition spec_path_length :: "plan \<Rightarrow> position \<Rightarrow> nat \<Rightarrow> int" where
  "spec_path_length plan goal i =
     (if \<forall>t<length plan. plan ! t ! i = goal then 0
      else 1 + int (Max {t. t < length plan \<and> plan ! t ! i \<noteq> goal}))"

text \<open>
  The arguments on which no index of \<open>calculate_metrics\<close> leaves its list: \<open>goals\<close> and
  every configuration of the plan have an entry for each agent index below
  \<open>len(starts)\<close>. The data model asks for more (exactly one entry per agent).
\<close>

definition well_formed :: "plan \<Rightarrow> config \<Rightarrow> config \<Rightarrow> bool" where
  "well_formed plan starts goals \<longleftrightarrow>
     length starts \<le> length goals \<and> (\<forall>c \<in> set plan. length starts \<le> length c)"

text \<open>One visit of the inner loop as a pure update of the variable, for the proofs.\<close>

definition timestep_update :: "plan \<Rightarrow> nat \<Rightarrow> position \<Rightarrow> nat \<Rightarrow> int \<Rightarrow> int" where
  "timestep_update plan i g t l = (if plan ! t ! i \<noteq> g then int t + 1 else l)"

text \<open>
  The dictionary of the metrics engine in closed form, each field as the specification
  words it, with the path length above.
\<close>

definition metrics_value :: "plan \<Rightarrow> config \<Rightarrow> config \<Rightarrow> 't \<Rightarrow> 't metrics" where
  "metrics_value plan starts goals ct =
     [(''number_of_agents'', PyInt (int (length starts))),
      (''success'', PyBool (\<forall>i<length starts. last plan ! i = goals ! i)),
      (''makespan'', PyInt (int (length plan) - 1)),
      (''sum_of_costs'', PyInt (\<Sum>i\<leftarrow>[0..<length starts]. spec_path_length plan (goals ! i) i)),
      (''average_path_length'',
         PyFloat (quotient_double
                    (\<Sum>i\<leftarrow>[0..<length starts]. spec_path_length plan (goals ! i) i)
                    (int (length starts)))),
      (''total_timesteps'', PyInt (int (length plan))),
      (''computation_time'', PyTime ct)]"

text \<open>
  A dictionary without its \<open>computation_time\<close> item, and the same for the outcome of a
  call (an exception is left as it is): what two runs that differ only in the elapsed
  time are compared on.
\<close>

definition without_time :: "'t metrics \<Rightarrow> 't metrics" where
  "without_time d = filter (\<lambda>item. fst item \<noteq> ''computation_time'') d"

definition outcome_without_time :: "py_error + 't metrics \<Rightarrow> py_error + 't metrics" where
  "outcome_without_time res = (case res of Inl e \<Rightarrow> Inl e | Inr d \<Rightarrow> Inr (without_time d))"

text \<open>A fully open grid of three rows and three columns, for the examples.\<close>

definition open_grid :: grid where
  "open_grid = \<lparr>is_walkable = (\<lambda>(r, c). 0 \<le> r \<and> r < 3 \<and> 0 \<le> c \<and> c < 3),
     neighbors4 = (\<lambda>(r, c). {(r + 1, c), (r - 1, c), (r, c + 1), (r, c - 1)})\<rparr>"

text \<open>A grid without a walkable cell.\<close>

definition blocked_grid :: grid where
  "blocked_grid = \<lparr>is_walkable = (\<lambda>p. False), neighbors4 = (\<lambda>p. {})\<rparr>"

text \<open>The outcome of a call on the store without the \<open>computation_time\<close> item.\<close>

definition strip_time :: "'t metrics outcome \<Rightarrow> 't metrics outcome" where
  "strip_time res = (case res of Inl f \<Rightarrow> Inl f | Inr d \<Rightarrow> Inr (without_time d))"

text \<open>
  Two stores that hold the same arguments. In the first the plan's initial configuration
  is the list \<open>starts\<close> itself (address 1); in the second every list is an object of its
  own, at other addresses.
\<close>

definition heap_shared :: heap where
  "heap_shared = map_of
     [(0, ReferenceList [1, 2]),
      (1, PositionList [(0, 0), (1, 1)]),
      (2, PositionList [(0, 1), (1, 1)]),
      (3, PositionList [(0, 1), (1, 1)])]"

definition heap_copied :: heap where
  "heap_copied = map_of
     [(10, ReferenceList [11, 12]),
      (11, PositionList [(0, 0), (1, 1)]),
      (12, PositionList [(0, 1), (1, 1)]),
      (13, PositionList [(0, 0), (1, 1)]),
      (14, PositionList [(0, 1), (1, 1)])]"

section \<open>The loops in closed form\<close>

lemma getitem_nat: "getitem xs (int i) = (if i < length xs then Inr (xs ! i) else Inl IndexError)"
  by (simp add: getitem_def)

lemma getitem_last: "xs \<noteq> [] \<Longrightarrow> getitem xs (- 1) = Inr (last xs)"
  by (cases xs rule: rev_cases) (simp_all add: getitem_def nat_add_distrib)

lemma timestep_loop_fold:
  "\<forall>t \<in> set ts. t < length plan \<and> i < length (plan ! t) \<Longrightarrow>
   timestep_loop plan i g ts l = Inr (fold (timestep_update plan i g) ts l)"
  by (induction ts arbitrary: l) (simp_all add: getitem_nat timestep_update_def)

lemma timestep_loop_Inr:
  "timestep_loop plan i g ts l = Inr r \<Longrightarrow> \<forall>t \<in> set ts. t < length plan \<and> i < length (plan ! t)"
  by (induction ts arbitrary: l) (auto simp: getitem_nat split: sum.splits if_splits)

lemma fold_step_upt:
  "fold (timestep_update plan i g) [0..<m] 0 =
     (if \<forall>t<m. plan ! t ! i = g then 0 else 1 + int (Max {t. t < m \<and> plan ! t ! i \<noteq> g}))"
proof (induction m)
  case 0
  show ?case by simp
next
  case (Suc m)
  show ?case
  proof (cases "plan ! m ! i = g")
    case True
    then have "{t. t < Suc m \<and> plan ! t ! i \<noteq> g} = {t. t < m \<and> plan ! t ! i \<noteq> g}"
      using less_Suc_eq by auto
    moreover have "(\<forall>t<Suc m. plan ! t ! i = g) \<longleftrightarrow> (\<forall>t<m. plan ! t ! i = g)"
      using True less_Suc_eq by auto
    ultimately show ?thesis using Suc True by (simp add: timestep_update_def)
  next
    case False
    have "Max {t. t < Suc m \<and> plan ! t ! i \<noteq> g} = m"
      using False by (intro Max_eqI) auto
    moreover have "\<not> (\<forall>t<Suc m. plan ! t ! i = g)" using False by auto
    ultimately show ?thesis using False by (simp add: timestep_update_def)
  qed
qed


lemma agent_path_length_returns:
  assumes "i < length goals" and "\<forall>c \<in> set plan. i < length c"
  shows "agent_path_length plan goals i = Inr (spec_path_length plan (goals ! i) i)"
proof -
  have "\<forall>t \<in> set [0..<length plan]. t < length plan \<and> i < length (plan ! t)"
    using assms(2) by simp
  then have "timestep_loop plan i (goals ! i) [0..<length plan] 0 =
      Inr (fold (timestep_update plan i (goals ! i)) [0..<length plan] 0)"
    by (rule timestep_loop_fold)
  then show ?thesis
    using assms(1) by (simp add: agent_path_length_def getitem_nat fold_step_upt spec_path_length_def)
qed

lemma agent_path_length_Inr:
  assumes "agent_path_length plan goals i = Inr r"
  shows "i < length goals \<and> (\<forall>c \<in> set plan. i < length c)"
proof -
  from assms have g: "i < length goals"
    by (auto simp: agent_path_length_def getitem_nat split: if_splits)
  with assms have "timestep_loop plan i (goals ! i) [0..<length plan] 0 = Inr r"
    by (simp add: agent_path_length_def getitem_nat)
  then have "\<forall>t \<in> set [0..<length plan]. t < length plan \<and> i < length (plan ! t)"
    by (rule timestep_loop_Inr)
  then have "\<forall>c \<in> set plan. i < length c"
    by (auto simp: in_set_conv_nth)
  with g show ?thesis by simp
qed

lemma agent_loop_returns:
  "\<forall>i \<in> set ids. i < length goals \<and> (\<forall>c \<in> set plan. i < length c) \<Longrightarrow>
   agent_loop plan goals ids s = Inr (s + (\<Sum>i\<leftarrow>ids. spec_path_length plan (goals ! i) i))"
  by (induction ids arbitrary: s) (simp_all add: agent_path_length_returns)

lemma agent_loop_Inr:
  "agent_loop plan goals ids s = Inr r \<Longrightarrow>
   \<forall>i \<in> set ids. i < length goals \<and> (\<forall>c \<in> set plan. i < length c)"
proof (induction ids arbitrary: s)
  case Nil
  show ?case by simp
next
  case (Cons i ids)
  from Cons.prems obtain l where l: "agent_path_length plan goals i = Inr l"
    and rest: "agent_loop plan goals ids (s + l) = Inr r"
    by (auto split: sum.splits)
  from agent_path_length_Inr [OF l] Cons.IH [OF rest] show ?case by simp
qed

lemma all_reached_returns:
  "\<forall>i \<in> set ids. i < length fp \<and> i < length goals \<Longrightarrow>
   all_reached fp goals ids = Inr (\<forall>i \<in> set ids. fp ! i = goals ! i)"
  by (induction ids) (simp_all add: getitem_nat)

lemma well_formed_last:
  "plan \<noteq> [] \<Longrightarrow> well_formed plan starts goals \<Longrightarrow> length starts \<le> length (last plan)"
  by (simp add: well_formed_def)

lemma metrics_of_plan_returns:
  assumes ne: "plan \<noteq> []" and wf: "well_formed plan starts goals" and n: "starts \<noteq> []"
  shows "metrics_of_plan plan starts goals ct = Inr (metrics_value plan starts goals ct)"
proof -
  have idx: "\<forall>i \<in> set [0..<length starts]. i < length goals \<and> (\<forall>c \<in> set plan. i < length c)"
    using wf by (auto simp: well_formed_def)
  have fin: "\<forall>i \<in> set [0..<length starts]. i < length (last plan) \<and> i < length goals"
    using wf well_formed_last [OF ne wf] by (auto simp: well_formed_def)
  show ?thesis
    using n
    by (simp add: metrics_of_plan_def agent_loop_returns [OF idx] getitem_last [OF ne]
        all_reached_returns [OF fin] truediv_def metrics_value_def Let_def Ball_def)
qed

lemma metrics_of_plan_Inr:
  assumes "metrics_of_plan plan starts goals ct = Inr r"
  shows "starts \<noteq> [] \<and> well_formed plan starts goals"
proof -
  from assms obtain s where s: "agent_loop plan goals [0..<length starts] 0 = Inr s"
    by (auto simp: metrics_of_plan_def Let_def split: sum.splits)
  from agent_loop_Inr [OF s] have "well_formed plan starts goals"
    by (cases "length starts") (auto simp: well_formed_def)
  moreover from assms have "starts \<noteq> []"
    by (auto simp: metrics_of_plan_def Let_def truediv_def split: sum.splits if_splits)
  ultimately show ?thesis by simp
qed


lemma spec_path_length_gt:
  assumes "t < length plan" and "plan ! t ! i \<noteq> g"
  shows "int t < spec_path_length plan g i"
proof -
  let ?D = "{t. t < length plan \<and> plan ! t ! i \<noteq> g}"
  have "t \<in> ?D" using assms by simp
  then have "t \<le> Max ?D" by (intro Max_ge) simp_all
  moreover have "\<not> (\<forall>t<length plan. plan ! t ! i = g)" using assms by blast
  ultimately show ?thesis by (simp add: spec_path_length_def)
qed

lemma spec_path_length_le_makespan:
  assumes "plan \<noteq> []" and "last plan ! i = g"
  shows "spec_path_length plan g i \<le> int (length plan) - 1"
proof (cases "\<forall>t<length plan. plan ! t ! i = g")
  case True
  then show ?thesis using assms(1) by (simp add: spec_path_length_def Suc_leI)
next
  case False
  let ?D = "{t. t < length plan \<and> plan ! t ! i \<noteq> g}"
  have ne: "?D \<noteq> {}" using False by blast
  have "Max ?D \<in> ?D" using ne by (intro Max_in) simp_all
  then have lt: "Max ?D < length plan" and neq: "plan ! Max ?D ! i \<noteq> g" by simp_all
  have "Max ?D \<noteq> length plan - 1"
    using neq assms by (auto simp: last_conv_nth)
  with lt have "Max ?D + 1 < length plan" by arith
  moreover have "spec_path_length plan g i = 1 + int (Max ?D)"
    using False by (simp add: spec_path_length_def)
  ultimately show ?thesis by simp
qed

lemma spec_path_length_single:
  "c ! i \<noteq> g \<Longrightarrow> spec_path_length [c] g i = 1"
proof -
  assume a: "c ! i \<noteq> g"
  have "{t. t < length [c] \<and> [c] ! t ! i \<noteq> g} = {0}" using a by auto
  then show ?thesis using a by (simp add: spec_path_length_def)
qed

lemma calculate_metrics_returns:
  assumes "plan \<noteq> []" and "well_formed plan starts goals" and "starts \<noteq> []"
  shows "calculate_metrics (Some plan) starts goals ct = Inr (metrics_value plan starts goals ct)"
  using assms by (simp add: calculate_metrics_def metrics_of_plan_returns)

lemma calculate_metrics_returns_iff:
  assumes "plan \<noteq> []"
  shows "(\<exists>r. calculate_metrics (Some plan) starts goals ct = Inr r)
     \<longleftrightarrow> starts \<noteq> [] \<and> well_formed plan starts goals"
  using assms metrics_of_plan_Inr [of plan starts goals ct]
  by (auto simp: calculate_metrics_def metrics_of_plan_returns)

lemma calculate_metrics_Inr:
  assumes "plan \<noteq> []" and "calculate_metrics (Some plan) starts goals ct = Inr r"
  shows "starts \<noteq> [] \<and> well_formed plan starts goals \<and>
         r = metrics_value plan starts goals ct"
proof -
  have "\<exists>r. calculate_metrics (Some plan) starts goals ct = Inr r"
    using assms(2) by (rule exI)
  then have dom: "starts \<noteq> []" "well_formed plan starts goals"
    by (simp_all add: calculate_metrics_returns_iff [OF assms(1)])
  from calculate_metrics_returns [OF assms(1) dom(2,1), of ct] assms(2)
  have "r = metrics_value plan starts goals ct" by simp
  with dom show ?thesis by simp
qed

lemma agent_path_length_well_formed:
  assumes "well_formed plan starts goals" and "i < length starts"
  shows "agent_path_length plan goals i = Inr (spec_path_length plan (goals ! i) i)"
proof -
  have "i < length goals" and "\<forall>c \<in> set plan. i < length c"
    using assms by (auto simp: well_formed_def)
  then show ?thesis by (rule agent_path_length_returns)
qed

lemma sum_list_const_upt:
  "(\<forall>i<n. f i = (c::int)) \<Longrightarrow> (\<Sum>i\<leftarrow>[0..<n]. f i) = int n * c"
  by (induction n) (simp_all add: algebra_simps)

lemma sum_list_bound_upt:
  "(\<forall>i<n. f i \<le> (c::int)) \<Longrightarrow> (\<Sum>i\<leftarrow>[0..<n]. f i) \<le> int n * c"
proof (induction n)
  case 0
  show ?case by simp
next
  case (Suc n)
  then have "(\<Sum>i\<leftarrow>[0..<n]. f i) \<le> int n * c" and "f n \<le> c" by simp_all
  then show ?case by (simp add: algebra_simps)
qed

lemma metrics_of_plan_without_time:
  "outcome_without_time (metrics_of_plan pl starts goals ct) =
     outcome_without_time (metrics_of_plan pl starts goals ct')"
  by (simp add: metrics_of_plan_def Let_def outcome_without_time_def without_time_def
      split: sum.splits)

lemma metrics_of_plan_time:
  "metrics_of_plan pl starts goals ct = Inr r \<Longrightarrow>
   dict_get r ''computation_time'' = Some (PyTime ct)"
  by (auto simp: metrics_of_plan_def Let_def dict_get_def split: sum.splits)

section \<open>The rounding of the average\<close>

lemma round_half_even_error: "\<bar>of_int (round_half_even x) - x\<bar> \<le> 1 / 2"
proof -
  have "of_int \<lfloor>x\<rfloor> \<le> x" and "x < of_int \<lfloor>x\<rfloor> + 1"
    by linarith+
  then show ?thesis
    unfolding round_half_even_def Let_def by (auto simp: abs_if) linarith+
qed

lemma quotient_exponent_le:
  assumes "0 < a" and "0 < b"
  shows "(2 :: rat) powi quotient_exponent a b \<le> of_int a / of_int b"
proof (cases "(2 :: rat) powi (bitlen a - bitlen b) \<le> of_int a / of_int b")
  case True
  then show ?thesis by (simp add: quotient_exponent_def)
next
  case False
  have la: "1 \<le> bitlen a" using assms(1) by (simp add: bitlen_alt_def)
  have "2 ^ nat (bitlen a - 1) \<le> a" using bitlen_bounds [OF assms(1)] by simp
  then have "(of_int (2 ^ nat (bitlen a - 1)) :: rat) \<le> of_int a"
    by (simp only: of_int_le_iff)
  then have low: "(2 :: rat) powi (bitlen a - 1) \<le> of_int a"
    using la by (simp add: power_int_def)
  have "b < 2 ^ nat (bitlen b)" using bitlen_bounds [OF assms(2)] by simp
  then have "(of_int b :: rat) < of_int (2 ^ nat (bitlen b))"
    by (simp only: of_int_less_iff)
  then have up: "(of_int b :: rat) \<le> 2 powi bitlen b"
    using bitlen_nonneg [of b] by (simp add: power_int_def)
  have bpos: "(0 :: rat) < of_int b" using assms(2) by simp
  have "(2 :: rat) powi (bitlen a - bitlen b - 1) = 2 powi (bitlen a - 1) / 2 powi bitlen b"
    by (simp add: power_int_diff)
  also have "\<dots> \<le> of_int a / 2 powi bitlen b"
    using low by (simp add: divide_right_mono)
  also have "\<dots> \<le> of_int a / of_int b"
    using up bpos assms(1) by (simp add: divide_left_mono)
  finally show ?thesis using False by (simp add: quotient_exponent_def)
qed

lemma round_to_double_error:
  assumes "0 < a" and "0 < b"
  shows "\<bar>round_to_double a b - of_int a / of_int b\<bar>
           \<le> max (of_int a / of_int b / 2 ^ 53) (1 / 2 ^ 1075)"
proof -
  let ?q = "of_int a / of_int b :: rat"
  let ?e = "max (quotient_exponent a b - 52) (- 1074)"
  let ?P = "(2 :: rat) powi ?e"
  have P: "0 < ?P" by simp
  have "\<bar>of_int (round_half_even (?q / ?P)) * ?P - ?q\<bar>
      = \<bar>of_int (round_half_even (?q / ?P)) - ?q / ?P\<bar> * ?P"
  proof -
    have "of_int (round_half_even (?q / ?P)) * ?P - ?q
        = (of_int (round_half_even (?q / ?P)) - ?q / ?P) * ?P"
      using P by (simp add: algebra_simps)
    then show ?thesis using P by (simp add: abs_mult)
  qed
  also have "\<dots> \<le> 1 / 2 * ?P"
    using round_half_even_error [of "?q / ?P"] P by (intro mult_right_mono) simp_all
  also have "1 / 2 * ?P \<le> max (?q / 2 ^ 53) (1 / 2 ^ 1075)"
  proof (cases "- 1074 \<le> quotient_exponent a b - 52")
    case True
    then have "?e = quotient_exponent a b - 52" by simp
    then have "?P = 2 powi (quotient_exponent a b - 52)" by (simp only:)
    also have "\<dots> = 2 powi quotient_exponent a b / 2 powi 52"
      by (rule power_int_diff) simp
    also have "\<dots> = 2 powi quotient_exponent a b / 2 ^ 52" by simp
    finally have "1 / 2 * ?P = 2 powi quotient_exponent a b / 2 ^ 53" by simp
    also have "\<dots> \<le> ?q / 2 ^ 53"
      using quotient_exponent_le [OF assms] by (simp add: divide_right_mono)
    finally show ?thesis by simp
  next
    case False
    then have "?e = - 1074" by simp
    then have "?P = 2 powi (- 1074)" by (simp only:)
    also have "\<dots> = 1 / 2 ^ 1074" by (simp add: power_int_minus_divide)
    finally have "1 / 2 * ?P = 1 / 2 ^ 1075" by simp
    then show ?thesis by simp
  qed
  finally show ?thesis by (simp add: round_to_double_def Let_def)
qed

lemma spec_path_length_nonneg: "0 \<le> spec_path_length plan g i"
  by (simp add: spec_path_length_def)

lemma spec_path_length_le_length: "spec_path_length plan g i \<le> int (length plan)"
proof (cases "\<forall>t<length plan. plan ! t ! i = g")
  case True
  then show ?thesis by (simp add: spec_path_length_def)
next
  case False
  let ?D = "{t. t < length plan \<and> plan ! t ! i \<noteq> g}"
  have "?D \<noteq> {}" using False by blast
  then have "Max ?D \<in> ?D" by (intro Max_in) simp_all
  then have "Max ?D < length plan" by simp
  moreover have "spec_path_length plan g i = 1 + int (Max ?D)"
    using False by (simp add: spec_path_length_def)
  ultimately show ?thesis by simp
qed

lemma sum_of_costs_nonneg:
  "0 \<le> (\<Sum>i\<leftarrow>[0..<n]. spec_path_length plan (goals ! i) i)"
  by (induction n) (simp_all add: spec_path_length_nonneg)

lemma average_at_most_length:
  assumes "starts \<noteq> []"
  shows "(of_int (\<Sum>i\<leftarrow>[0..<length starts]. spec_path_length plan (goals ! i) i) :: rat)
           / of_int (int (length starts)) \<le> of_int (int (length plan))"
proof -
  let ?n = "length starts"
  have "(\<Sum>i\<leftarrow>[0..<?n]. spec_path_length plan (goals ! i) i) \<le> int ?n * int (length plan)"
    by (rule sum_list_bound_upt) (simp add: spec_path_length_le_length)
  then have "(of_int (\<Sum>i\<leftarrow>[0..<?n]. spec_path_length plan (goals ! i) i) :: rat)
      \<le> of_int (int ?n * int (length plan))"
    by (simp only: of_int_le_iff)
  moreover have "(0 :: rat) < of_int (int ?n)" using assms by simp
  ultimately show ?thesis by (simp add: divide_le_eq mult.commute)
qed

lemma quotient_double_nonneg:
  assumes "0 \<le> a" and "0 < b"
  shows "\<not> negative (quotient_double a b) \<and>
         \<bar>magnitude (quotient_double a b) - of_int a / of_int b\<bar>
           \<le> max (of_int a / of_int b / 2 ^ 53) (1 / 2 ^ 1075)"
proof (cases "a = 0")
  case True
  then show ?thesis using assms(2) by (simp add: quotient_double_def)
next
  case False
  with assms(1) have "0 < a" by simp
  from round_to_double_error [OF this assms(2)] False assms show ?thesis
    by (simp add: quotient_double_def)
qed

section \<open>The validator on legal plans\<close>

lemma check_transitions_Success:
  "(\<forall>k. Suc k < length plan \<longrightarrow>
      check_transition g n (t + k) (plan ! k) (plan ! Suc k) = Success) \<Longrightarrow>
   check_transitions g n t plan = Success"
proof (induction g n t plan rule: check_transitions.induct)
  case (1 g n t c c' rest)
  from "1.prems" have first: "check_transition g n t c c' = Success"
    by (elim allE [of _ 0]) simp
  have "\<forall>k. Suc k < length (c' # rest) \<longrightarrow>
      check_transition g n (Suc t + k) ((c' # rest) ! k) ((c' # rest) ! Suc k) = Success"
  proof (intro allI impI)
    fix k
    assume "Suc k < length (c' # rest)"
    with "1.prems" show
      "check_transition g n (Suc t + k) ((c' # rest) ! k) ((c' # rest) ! Suc k) = Success"
      by (elim allE [of _ "Suc k"]) simp
  qed
  with "1.IH" first show ?case by simp
qed simp_all

lemma check_transition_Success:
  assumes "\<forall>i<n. is_walkable g (c' ! i)"
    and "\<forall>i<n. c' ! i = c ! i \<or> c' ! i \<in> neighbors4 g (c ! i)"
    and "\<forall>i<n. \<forall>j<n. j \<noteq> i \<longrightarrow> c' ! j \<noteq> c' ! i"
    and "\<forall>i<n. \<forall>j<n. j \<noteq> i \<longrightarrow> \<not> (c ! i = c' ! j \<and> c ! j = c' ! i)"
  shows "check_transition g n t c c' = Success"
proof -
  have "blocked_agents g n c' = []"
    using assms(1) by (simp add: blocked_agents_def filter_empty_conv)
  moreover have "illegal_movers g n c c' = []"
    using assms(2) by (auto simp: illegal_movers_def filter_empty_conv)
  moreover have "vertex_colliders n c' = []"
    using assms(3) by (auto simp: vertex_colliders_def filter_empty_conv)
  moreover have "swappers n c c' = []"
    using assms(4) by (auto simp: swappers_def filter_empty_conv)
  ultimately show ?thesis by (simp add: check_transition_def)
qed


lemma plan_walkable:
  assumes ne: "plan \<noteq> []"
    and len_cfg: "\<forall>c \<in> set plan. length c = length starts"
    and init: "hd plan = starts"
    and walk0: "\<forall>p \<in> set starts. is_walkable g p"
    and moves: "\<forall>t. Suc t < length plan \<longrightarrow>
        (\<forall>i<length starts. plan ! Suc t ! i = plan ! t ! i \<or>
           plan ! Suc t ! i \<in> neighbors4 g (plan ! t ! i) \<and>
           is_walkable g (plan ! Suc t ! i))"
  shows "t < length plan \<Longrightarrow> \<forall>i<length starts. is_walkable g (plan ! t ! i)"
proof (induction t)
  case 0
  have "plan ! 0 = starts" using ne init by (simp add: hd_conv_nth)
  then show ?case using walk0 by simp
next
  case (Suc t)
  then have IH: "\<forall>i<length starts. is_walkable g (plan ! t ! i)" by simp
  show ?case
  proof (intro allI impI)
    fix i
    assume i: "i < length starts"
    from moves Suc.prems i
    have "plan ! Suc t ! i = plan ! t ! i \<or>
        plan ! Suc t ! i \<in> neighbors4 g (plan ! t ! i) \<and> is_walkable g (plan ! Suc t ! i)"
      by blast
    with IH i show "is_walkable g (plan ! Suc t ! i)" by auto
  qed
qed

text \<open>
  The walkability of the start cells is part of the configuration invariant of the data
  model. The validator does not test it on the initial configuration, and an agent that
  waits on a blocked start cell fails the cell validity check of the first transition.
\<close>

lemma blocked_start_rejected:
  "is_valid_mapf_solution blocked_grid [(0, 0)] [(0, 0)] [[(0, 0)], [(0, 0)]] =
     Inr (Failure BLOCKED_CELL 1 [0])"
  by (simp add: is_valid_mapf_solution_def validate_def check_transition_def
      blocked_agents_def blocked_grid_def)

section \<open>The store is only read\<close>

lemma bind_h_frame:
  assumes "\<And>h. snd (m h) = h" and "\<And>v h. snd (k v h) = h"
  shows "snd (bind_h m k h) = h"
proof (cases "m h")
  case (Pair res h')
  with assms(1) [of h] have "h' = h" by simp
  with Pair assms(2) show ?thesis
    by (cases res) (simp_all add: bind_h_def)
qed

lemma len_positions_frame: "snd (len_positions a h) = h"
  by (simp add: len_positions_def split: option.splits py_object.splits)

lemma len_references_frame: "snd (len_references a h) = h"
  by (simp add: len_references_def split: option.splits py_object.splits)

lemma getitem_positions_frame: "snd (getitem_positions a i h) = h"
  by (simp add: getitem_positions_def split: option.splits py_object.splits)

lemma getitem_references_frame: "snd (getitem_references a i h) = h"
  by (simp add: getitem_references_def split: option.splits py_object.splits)

lemma return_h_frame: "snd (return_h v h) = h"
  by (simp add: return_h_def)

lemma read_cell_frame: "snd (read_cell plan t i h) = h"
  unfolding read_cell_def
  by (rule bind_h_frame) (rule getitem_references_frame getitem_positions_frame)+

lemma timestep_loop_h_frame: "snd (timestep_loop_h plan i g ts len h) = h"
proof (induction ts arbitrary: len h)
  case Nil
  show ?case by simp
next
  case (Cons t ts)
  obtain res h' where rc: "read_cell plan t i h = (res, h')" by (cases "read_cell plan t i h")
  with read_cell_frame [of plan t i h] have "h' = h" by simp
  with rc Cons.IH show ?case by (cases res) simp_all
qed

lemma agent_path_length_h_frame: "snd (agent_path_length_h plan goals i h) = h"
  unfolding agent_path_length_h_def
  by (intro bind_h_frame getitem_positions_frame len_references_frame timestep_loop_h_frame)

lemma agent_loop_h_frame: "snd (agent_loop_h plan goals ids s h) = h"
proof (induction ids arbitrary: s h)
  case Nil
  show ?case by simp
next
  case (Cons i ids)
  obtain res h' where ap: "agent_path_length_h plan goals i h = (res, h')"
    by (cases "agent_path_length_h plan goals i h")
  with agent_path_length_h_frame [of plan goals i h] have "h' = h" by simp
  with ap Cons.IH show ?case by (cases res) simp_all
qed

lemma compare_cell_frame: "snd (compare_cell fp goals i h) = h"
  unfolding compare_cell_def
  by (intro bind_h_frame getitem_positions_frame return_h_frame)

lemma all_reached_h_frame: "snd (all_reached_h fp goals ids h) = h"
proof (induction ids arbitrary: h)
  case Nil
  show ?case by simp
next
  case (Cons i ids)
  obtain res h' where cc: "compare_cell fp goals i h = (res, h')"
    by (cases "compare_cell fp goals i h")
  with compare_cell_frame [of fp goals i h] have "h' = h" by simp
  with cc Cons.IH show ?case by (cases res) simp_all
qed

lemma metrics_of_plan_h_frame: "snd (metrics_of_plan_h plan starts goals ct h) = h"
  unfolding metrics_of_plan_h_def
  by (intro bind_h_frame len_positions_frame len_references_frame agent_loop_h_frame
      getitem_references_frame all_reached_h_frame return_h_frame) simp

lemma calculate_metrics_h_frame: "snd (calculate_metrics_h plan starts goals ct h) = h"
proof (cases plan)
  case None
  then show ?thesis by (simp add: calculate_metrics_h_def return_h_def)
next
  case (Some p)
  have "snd (bind_h (len_references p)
      (\<lambda>n. if n = 0 then return_h (failed_metrics ct)
           else metrics_of_plan_h p starts goals ct) h) = h"
    by (rule bind_h_frame) (simp_all add: len_references_frame return_h_frame
        metrics_of_plan_h_frame)
  with Some show ?thesis by (simp add: calculate_metrics_h_def)
qed

section \<open>The function on the store computes what the function on values computes\<close>

lemma holds_plan_length:
  "holds_plan h a p \<Longrightarrow> len_references a h = (Inr (length p), h)"
  by (auto simp: holds_plan_def len_references_def dest: list_all2_lengthD)

lemma holds_plan_nth:
  assumes "holds_plan h a p" and "t < length p"
  shows "\<exists>c. getitem_references a (int t) h = (Inr c, h) \<and> h c = Some (PositionList (p ! t))"
proof -
  from assms(1) obtain cs where cs: "h a = Some (ReferenceList cs)"
    and all: "list_all2 (\<lambda>c ps. h c = Some (PositionList ps)) cs p"
    by (auto simp: holds_plan_def)
  from all have len: "length cs = length p" by (rule list_all2_lengthD)
  have "h (cs ! t) = Some (PositionList (p ! t))"
    using list_all2_nthD2 [OF all assms(2)] by simp
  moreover have "getitem_references a (int t) h = (Inr (cs ! t), h)"
    using cs assms(2) len by (simp add: getitem_references_def getitem_nat lift_def)
  ultimately show ?thesis by blast
qed

lemma holds_plan_last:
  assumes "holds_plan h a p" and "p \<noteq> []"
  shows "\<exists>c. getitem_references a (- 1) h = (Inr c, h) \<and> h c = Some (PositionList (last p))"
proof -
  from assms(1) obtain cs where cs: "h a = Some (ReferenceList cs)"
    and all: "list_all2 (\<lambda>c ps. h c = Some (PositionList ps)) cs p"
    by (auto simp: holds_plan_def)
  from all have len: "length cs = length p" by (rule list_all2_lengthD)
  with assms(2) have ne: "cs \<noteq> []" by auto
  have "length p - 1 < length p" using assms(2) by simp
  from list_all2_nthD2 [OF all this] len
  have "h (cs ! (length cs - 1)) = Some (PositionList (p ! (length p - 1)))"
    by simp
  then have "h (last cs) = Some (PositionList (last p))"
    using ne assms(2) by (simp add: last_conv_nth)
  moreover have "getitem_references a (- 1) h = (Inr (last cs), h)"
    using cs ne by (simp add: getitem_references_def getitem_last lift_def)
  ultimately show ?thesis by blast
qed

lemma getitem_positions_holds:
  "h a = Some (PositionList ps) \<Longrightarrow> getitem_positions a i h = (lift (getitem ps i), h)"
  by (simp add: getitem_positions_def)

lemma len_positions_holds:
  "h a = Some (PositionList ps) \<Longrightarrow> len_positions a h = (Inr (length ps), h)"
  by (simp add: len_positions_def)

lemma read_cell_holds:
  assumes "holds_plan h a p" and "t < length p"
  shows "read_cell a t i h = (lift (getitem (p ! t) (int i)), h)"
proof -
  from holds_plan_nth [OF assms] obtain c
    where c: "getitem_references a (int t) h = (Inr c, h)"
      and pc: "h c = Some (PositionList (p ! t))"
    by blast
  show ?thesis
    using c getitem_positions_holds [of h c "p ! t" "int i", OF pc]
    by (simp add: read_cell_def bind_h_def)
qed

lemma timestep_loop_h_refines:
  assumes "holds_plan h a p"
  shows "\<forall>t \<in> set ts. t < length p \<Longrightarrow>
         timestep_loop_h a i g ts len h = (lift (timestep_loop p i g ts len), h)"
proof (induction ts arbitrary: len)
  case Nil
  show ?case by (simp add: lift_def)
next
  case (Cons t ts)
  then have t: "t < length p" and rest: "\<forall>t \<in> set ts. t < length p" by simp_all
  note rc = read_cell_holds [OF assms t, of i]
  show ?case
  proof (cases "getitem (p ! t) (int i)")
    case (Inl e)
    with rc t show ?thesis by (simp add: lift_def getitem_nat)
  next
    case (Inr pos)
    with rc t Cons.IH [OF rest] show ?thesis by (simp add: lift_def getitem_nat)
  qed
qed

lemma agent_path_length_h_refines:
  assumes "holds_plan h a p" and "h ga = Some (PositionList goals)"
  shows "agent_path_length_h a ga i h = (lift (agent_path_length p goals i), h)"
proof (cases "getitem goals (int i)")
  case (Inl e)
  with getitem_positions_holds [of h ga goals "int i", OF assms(2)] show ?thesis
    by (simp add: agent_path_length_h_def agent_path_length_def bind_h_def lift_def)
next
  case (Inr g)
  with getitem_positions_holds [of h ga goals "int i", OF assms(2)]
  have "getitem_positions ga (int i) h = (Inr g, h)" by (simp add: lift_def)
  then have "agent_path_length_h a ga i h = timestep_loop_h a i g [0..<length p] 0 h"
    by (simp add: agent_path_length_h_def bind_h_def holds_plan_length [OF assms(1)])
  also have "\<dots> = (lift (timestep_loop p i g [0..<length p] 0), h)"
    by (rule timestep_loop_h_refines [OF assms(1)]) simp
  finally show ?thesis using Inr by (simp add: agent_path_length_def)
qed

lemma agent_loop_h_refines:
  assumes "holds_plan h a p" and "h ga = Some (PositionList goals)"
  shows "agent_loop_h a ga ids s h = (lift (agent_loop p goals ids s), h)"
proof (induction ids arbitrary: s)
  case Nil
  show ?case by (simp add: lift_def)
next
  case (Cons i ids)
  note ap = agent_path_length_h_refines [OF assms, of i]
  show ?case
  proof (cases "agent_path_length p goals i")
    case (Inl e)
    with ap show ?thesis by (simp add: lift_def)
  next
    case (Inr len)
    with ap Cons.IH show ?thesis by (simp add: lift_def)
  qed
qed

lemma compare_cell_holds:
  assumes "h fa = Some (PositionList fp)" and "h ga = Some (PositionList goals)"
  shows "compare_cell fa ga i h =
     (lift (case getitem fp (int i) of
              Inl e \<Rightarrow> Inl e
            | Inr pos \<Rightarrow> (case getitem goals (int i) of
                            Inl e \<Rightarrow> Inl e
                          | Inr goal \<Rightarrow> Inr (pos = goal))), h)"
  by (simp add: compare_cell_def bind_h_def return_h_def lift_def
      getitem_positions_holds [of h fa fp, OF assms(1)]
      getitem_positions_holds [of h ga goals, OF assms(2)]
      split: sum.splits)

lemma all_reached_h_refines:
  assumes "h fa = Some (PositionList fp)" and "h ga = Some (PositionList goals)"
  shows "all_reached_h fa ga ids h = (lift (all_reached fp goals ids), h)"
proof (induction ids)
  case Nil
  show ?case by (simp add: lift_def)
next
  case (Cons i ids)
  then show ?case
    by (simp add: compare_cell_holds [OF assms] lift_def split: sum.splits)
qed

lemma metrics_of_plan_h_refines:
  assumes hp: "holds_plan h a p" and ne: "p \<noteq> []"
    and hs: "h sa = Some (PositionList starts)"
    and hg: "h ga = Some (PositionList goals)"
  shows "metrics_of_plan_h a sa ga ct h = (lift (metrics_of_plan p starts goals ct), h)"
proof -
  from holds_plan_last [OF hp ne] obtain fa
    where fa: "getitem_references a (- 1) h = (Inr fa, h)"
      and hf: "h fa = Some (PositionList (last p))"
    by blast
  show ?thesis
    by (simp add: metrics_of_plan_h_def metrics_of_plan_def Let_def bind_h_def
        len_positions_holds [of h sa starts, OF hs] holds_plan_length [OF hp]
        agent_loop_h_refines [OF hp hg] fa getitem_last [OF ne]
        all_reached_h_refines [of h fa "last p" ga goals, OF hf hg]
        return_h_def lift_def split: sum.splits)
qed

lemma calculate_metrics_h_refines:
  assumes "represents h pr sa ga plan starts goals"
  shows "calculate_metrics_h pr sa ga ct h = (lift (calculate_metrics plan starts goals ct), h)"
proof (cases plan)
  case None
  with assms show ?thesis
    by (simp add: represents_def calculate_metrics_h_def calculate_metrics_def return_h_def
        lift_def)
next
  case (Some p)
  with assms obtain a where pr: "pr = Some a" and hp: "holds_plan h a p"
    and hs: "h sa = Some (PositionList starts)" and hg: "h ga = Some (PositionList goals)"
    by (auto simp: represents_def)
  show ?thesis
  proof (cases "p = []")
    case True
    with Some pr show ?thesis
      by (simp add: calculate_metrics_h_def calculate_metrics_def return_h_def lift_def
          bind_h_def holds_plan_length [OF hp])
  next
    case False
    with Some pr metrics_of_plan_h_refines [OF hp False hs hg, of ct] show ?thesis
      by (simp add: calculate_metrics_h_def calculate_metrics_def bind_h_def
          holds_plan_length [OF hp])
  qed
qed

lemma strip_time_lift:
  "strip_time (lift res) = lift (outcome_without_time res)"
  by (cases res) (simp_all add: strip_time_def lift_def outcome_without_time_def)

lemma calculate_metrics_time_passthrough:
  "outcome_without_time (calculate_metrics p starts goals ct) =
     outcome_without_time (calculate_metrics p starts goals ct') \<and>
   (\<forall>r. calculate_metrics p starts goals ct = Inr r \<longrightarrow>
      dict_get r ''computation_time'' = Some (PyTime ct))"
proof (cases p)
  case None
  then show ?thesis
    by (auto simp: calculate_metrics_def failed_metrics_def outcome_without_time_def
        without_time_def dict_get_def)
next
  case (Some pl)
  show ?thesis
  proof (cases "pl = []")
    case True
    with Some show ?thesis
      by (auto simp: calculate_metrics_def failed_metrics_def outcome_without_time_def
          without_time_def dict_get_def)
  next
    case False
    with Some show ?thesis
      using metrics_of_plan_without_time [of pl starts goals ct ct']
        metrics_of_plan_time [of pl starts goals ct]
      by (simp add: calculate_metrics_def)
  qed
qed

section \<open>Claims about calculate\_metrics\<close>

text \<open>
  C1. For a non-empty plan and an agent index that \<open>goals\<close> and every configuration
  contain, the path length the loops compute for that agent is the one of the
  specification: one more than the largest timestep at which the agent is off its goal,
  zero when it is on its goal at every timestep. In particular it exceeds every timestep
  at which the agent is off its goal, so a departure after a first arrival is what counts.
\<close>

theorem agent_path_length_last_departure:
  assumes "plan \<noteq> []" and "i < length goals" and "\<forall>c \<in> set plan. i < length c"
  shows "agent_path_length plan goals i = Inr (spec_path_length plan (goals ! i) i) \<and>
         (\<forall>t<length plan. plan ! t ! i \<noteq> goals ! i \<longrightarrow>
            int t < spec_path_length plan (goals ! i) i)"
  using agent_path_length_returns [OF assms(2,3)] spec_path_length_gt by blast

text \<open>
  An agent with goal (0, 1) that reaches it at timestep 1, leaves at timestep 2 and comes
  back at timestep 3 has path length 3, not 1.
\<close>

theorem agent_path_length_last_departure_witness:
  "agent_path_length [[(0, 0)], [(0, 1)], [(0, 0)], [(0, 1)]] [(0, 1)] 0 = Inr 3 \<and>
   spec_path_length [[(0, 0)], [(0, 1)], [(0, 0)], [(0, 1)]] (0, 1) 0 = 3"
proof -
  let ?P = "[[(0, 0)], [(0, 1)], [(0, 0)], [(0, 1)]] :: plan"
  let ?G = "[(0, 1)] :: config"
  have run: "agent_path_length ?P ?G 0 = Inr 3"
    by (simp add: agent_path_length_def getitem_def upt_rec)
  have "agent_path_length ?P ?G 0 = Inr (spec_path_length ?P (?G ! 0) 0)"
    using agent_path_length_last_departure [of ?P 0 ?G] by simp
  with run show ?thesis by simp
qed

text \<open>
  C2. When the plan is \<open>None\<close> or the empty list, the dictionary returned has exactly
  two items: \<open>success\<close>, which is false, and \<open>computation_time\<close>, which is the argument.
\<close>

theorem calculate_metrics_empty_plan:
  "calculate_metrics None starts goals ct =
     Inr [(''success'', PyBool False), (''computation_time'', PyTime ct)] \<and>
   calculate_metrics (Some []) starts goals ct =
     Inr [(''success'', PyBool False), (''computation_time'', PyTime ct)]"
  by (simp add: calculate_metrics_def failed_metrics_def)

text \<open>
  C3. For a non-empty plan, the \<open>success\<close> item of any dictionary the function returns
  is true exactly when every agent's position in the last configuration equals its goal.
  A dictionary is returned whenever there is at least one agent and the arguments are
  well formed.
\<close>

theorem calculate_metrics_success:
  assumes "plan \<noteq> []"
  shows "(starts \<noteq> [] \<and> well_formed plan starts goals \<longrightarrow>
            (\<exists>r. calculate_metrics (Some plan) starts goals ct = Inr r)) \<and>
         (\<forall>r. calculate_metrics (Some plan) starts goals ct = Inr r \<longrightarrow>
            dict_get r ''success'' =
              Some (PyBool (\<forall>i<length starts. last plan ! i = goals ! i)))"
proof (intro conjI impI allI)
  assume "starts \<noteq> [] \<and> well_formed plan starts goals"
  then show "\<exists>r. calculate_metrics (Some plan) starts goals ct = Inr r"
    by (simp add: calculate_metrics_returns_iff [OF assms])
next
  fix r
  assume "calculate_metrics (Some plan) starts goals ct = Inr r"
  from calculate_metrics_Inr [OF assms this]
  show "dict_get r ''success'' = Some (PyBool (\<forall>i<length starts. last plan ! i = goals ! i))"
    by (simp add: metrics_value_def dict_get_def)
qed

text \<open>Two agents and two configurations; both agents end on their goals.\<close>

theorem calculate_metrics_success_witness:
  "\<exists>r. calculate_metrics (Some [[(0, 0), (1, 1)], [(0, 1), (1, 1)]])
          [(0, 0), (1, 1)] [(0, 1), (1, 1)] (0 :: rat) = Inr r \<and>
        dict_get r ''success'' = Some (PyBool True)"
proof -
  let ?P = "[[(0, 0), (1, 1)], [(0, 1), (1, 1)]] :: plan"
  let ?S = "[(0, 0), (1, 1)] :: config"
  let ?G = "[(0, 1), (1, 1)] :: config"
  have ne: "?P \<noteq> []" by simp
  have dom: "?S \<noteq> [] \<and> well_formed ?P ?S ?G" by (simp add: well_formed_def)
  have fin: "(\<forall>i<length ?S. last ?P ! i = ?G ! i) = True"
    by (auto simp: less_Suc_eq)
  note inst = calculate_metrics_success [OF ne, of ?S ?G "0 :: rat"]
  from inst [THEN conjunct1, THEN mp, OF dom]
  obtain r where r: "calculate_metrics (Some ?P) ?S ?G (0 :: rat) = Inr r" ..
  from inst [THEN conjunct2, THEN spec, THEN mp, OF r] have "dict_get r ''success'' =
      Some (PyBool (\<forall>i<length ?S. last ?P ! i = ?G ! i))" .
  then have "dict_get r ''success'' = Some (PyBool True)" unfolding fin .
  with r show ?thesis by (intro exI [of _ r] conjI)
qed

text \<open>
  C4. For a non-empty plan, any dictionary the function returns has \<open>makespan\<close> equal to
  \<open>len(plan) - 1\<close> and \<open>total_timesteps\<close> equal to \<open>len(plan)\<close>. A dictionary is returned
  whenever there is at least one agent and the arguments are well formed.
\<close>

theorem calculate_metrics_makespan:
  assumes "plan \<noteq> []"
  shows "(starts \<noteq> [] \<and> well_formed plan starts goals \<longrightarrow>
            (\<exists>r. calculate_metrics (Some plan) starts goals ct = Inr r)) \<and>
         (\<forall>r. calculate_metrics (Some plan) starts goals ct = Inr r \<longrightarrow>
            dict_get r ''makespan'' = Some (PyInt (int (length plan) - 1)) \<and>
            dict_get r ''total_timesteps'' = Some (PyInt (int (length plan))))"
proof (intro conjI impI allI)
  assume "starts \<noteq> [] \<and> well_formed plan starts goals"
  then show "\<exists>r. calculate_metrics (Some plan) starts goals ct = Inr r"
    by (simp add: calculate_metrics_returns_iff [OF assms])
next
  fix r
  assume r: "calculate_metrics (Some plan) starts goals ct = Inr r"
  from calculate_metrics_Inr [OF assms r]
  show "dict_get r ''makespan'' = Some (PyInt (int (length plan) - 1))"
    by (simp add: metrics_value_def dict_get_def)
  from calculate_metrics_Inr [OF assms r]
  show "dict_get r ''total_timesteps'' = Some (PyInt (int (length plan)))"
    by (simp add: metrics_value_def dict_get_def)
qed

text \<open>The plan of two configurations has makespan 1 and two timesteps.\<close>

theorem calculate_metrics_makespan_witness:
  "\<exists>r. calculate_metrics (Some [[(0, 0), (1, 1)], [(0, 1), (1, 1)]])
          [(0, 0), (1, 1)] [(0, 1), (1, 1)] (0 :: rat) = Inr r \<and>
        dict_get r ''makespan'' = Some (PyInt 1) \<and>
        dict_get r ''total_timesteps'' = Some (PyInt 2)"
proof -
  let ?P = "[[(0, 0), (1, 1)], [(0, 1), (1, 1)]] :: plan"
  let ?S = "[(0, 0), (1, 1)] :: config"
  let ?G = "[(0, 1), (1, 1)] :: config"
  have ne: "?P \<noteq> []" by simp
  have dom: "?S \<noteq> [] \<and> well_formed ?P ?S ?G" by (simp add: well_formed_def)
  note inst = calculate_metrics_makespan [OF ne, of ?S ?G "0 :: rat"]
  from inst [THEN conjunct1, THEN mp, OF dom]
  obtain r where r: "calculate_metrics (Some ?P) ?S ?G (0 :: rat) = Inr r" ..
  from inst [THEN conjunct2, THEN spec, THEN mp, OF r] have "dict_get r ''makespan'' = Some (PyInt (int (length ?P) - 1)) \<and>
      dict_get r ''total_timesteps'' = Some (PyInt (int (length ?P)))" .
  then have "dict_get r ''makespan'' = Some (PyInt 1)"
    and "dict_get r ''total_timesteps'' = Some (PyInt 2)"
    by simp_all
  with r show ?thesis by (intro exI [of _ r] conjI)
qed

text \<open>
  C5. For a non-empty plan, any dictionary the function returns has \<open>sum_of_costs\<close> equal
  to the sum, over the agent indices below \<open>len(starts)\<close>, of the path lengths the inner
  loop computes, and \<open>average_path_length\<close> equal to what Python's division returns for
  that sum and \<open>number_of_agents\<close>, which is \<open>len(starts)\<close>: the double nearest to the exact
  quotient. It is not negative and differs from the exact quotient by at most half a unit
  in the last place. A dictionary is returned whenever there is at least one agent and
  the arguments are well formed.
\<close>

theorem calculate_metrics_sum_of_costs:
  assumes "plan \<noteq> []"
  shows "(starts \<noteq> [] \<and> well_formed plan starts goals \<longrightarrow>
            (\<exists>r. calculate_metrics (Some plan) starts goals ct = Inr r)) \<and>
         (\<forall>r. calculate_metrics (Some plan) starts goals ct = Inr r \<longrightarrow>
            (\<exists>ls f. length ls = length starts \<and>
               (\<forall>i<length starts. agent_path_length plan goals i = Inr (ls ! i)) \<and>
               dict_get r ''number_of_agents'' = Some (PyInt (int (length starts))) \<and>
               dict_get r ''sum_of_costs'' = Some (PyInt (sum_list ls)) \<and>
               truediv (sum_list ls) (int (length starts)) = Inr f \<and>
               dict_get r ''average_path_length'' = Some (PyFloat f) \<and>
               \<not> negative f \<and>
               \<bar>magnitude f - of_int (sum_list ls) / of_int (int (length starts))\<bar>
                 \<le> max (of_int (sum_list ls) / of_int (int (length starts)) / 2 ^ 53)
                       (1 / 2 ^ 1075)))"
proof (intro conjI impI allI)
  assume "starts \<noteq> [] \<and> well_formed plan starts goals"
  then show "\<exists>r. calculate_metrics (Some plan) starts goals ct = Inr r"
    by (simp add: calculate_metrics_returns_iff [OF assms])
next
  fix r
  assume "calculate_metrics (Some plan) starts goals ct = Inr r"
  from calculate_metrics_Inr [OF assms this]
  have sne: "starts \<noteq> []" and wf: "well_formed plan starts goals"
    and r: "r = metrics_value plan starts goals ct"
    by simp_all
  let ?n = "length starts"
  let ?ls = "map (\<lambda>i. spec_path_length plan (goals ! i) i) [0..<?n]"
  let ?f = "quotient_double (sum_list ?ls) (int ?n)"
  have each: "\<forall>i<?n. agent_path_length plan goals i = Inr (?ls ! i)"
    using agent_path_length_well_formed [OF wf] by simp
  have len: "length ?ls = ?n" by simp
  have pos: "0 < int ?n" using sne by simp
  have div: "truediv (sum_list ?ls) (int ?n) = Inr ?f"
    using sne by (simp add: truediv_def)
  have acc: "\<not> negative ?f \<and>
      \<bar>magnitude ?f - of_int (sum_list ?ls) / of_int (int ?n)\<bar>
        \<le> max (of_int (sum_list ?ls) / of_int (int ?n) / 2 ^ 53) (1 / 2 ^ 1075)"
    using sum_of_costs_nonneg pos by (intro quotient_double_nonneg) simp_all
  have n: "dict_get r ''number_of_agents'' = Some (PyInt (int ?n))"
    unfolding r by (simp add: metrics_value_def dict_get_def)
  have soc: "dict_get r ''sum_of_costs'' = Some (PyInt (sum_list ?ls))"
    unfolding r by (simp add: metrics_value_def dict_get_def)
  have avg: "dict_get r ''average_path_length'' = Some (PyFloat ?f)"
    unfolding r by (simp add: metrics_value_def dict_get_def)
  from len each n soc div avg acc
  show "\<exists>ls f. length ls = ?n \<and>
      (\<forall>i<?n. agent_path_length plan goals i = Inr (ls ! i)) \<and>
      dict_get r ''number_of_agents'' = Some (PyInt (int ?n)) \<and>
      dict_get r ''sum_of_costs'' = Some (PyInt (sum_list ls)) \<and>
      truediv (sum_list ls) (int ?n) = Inr f \<and>
      dict_get r ''average_path_length'' = Some (PyFloat f) \<and>
      \<not> negative f \<and>
      \<bar>magnitude f - of_int (sum_list ls) / of_int (int ?n)\<bar>
        \<le> max (of_int (sum_list ls) / of_int (int ?n) / 2 ^ 53) (1 / 2 ^ 1075)"
    by (intro exI [of _ ?ls] exI [of _ ?f] conjI) (elim conjE, assumption)+
qed

text \<open>
  Three agents, of which only the first is ever off its goal, at timestep 0: the path
  lengths are 1, 0 and 0, their sum is 1, and the average is the double nearest to one
  third, 6004799503160661 / 2 ^ 54.
\<close>

theorem calculate_metrics_sum_of_costs_witness:
  "\<exists>r. calculate_metrics (Some [[(0, 0), (1, 1), (2, 2)], [(0, 1), (1, 1), (2, 2)]])
          [(0, 0), (1, 1), (2, 2)] [(0, 1), (1, 1), (2, 2)] (0 :: rat) = Inr r \<and>
        dict_get r ''sum_of_costs'' = Some (PyInt 1) \<and>
        dict_get r ''average_path_length'' =
          Some (PyFloat (Double False (6004799503160661 / 18014398509481984)))"
proof -
  let ?P = "[[(0, 0), (1, 1), (2, 2)], [(0, 1), (1, 1), (2, 2)]] :: plan"
  let ?S = "[(0, 0), (1, 1), (2, 2)] :: config"
  let ?G = "[(0, 1), (1, 1), (2, 2)] :: config"
  have ne: "?P \<noteq> []" by simp
  have dom: "?S \<noteq> [] \<and> well_formed ?P ?S ?G" by (simp add: well_formed_def)
  have a0: "agent_path_length ?P ?G 0 = Inr 1"
    by (simp add: agent_path_length_def getitem_def upt_rec)
  have a1: "agent_path_length ?P ?G 1 = Inr 0"
    by (simp add: agent_path_length_def getitem_def upt_rec)
  have a2: "agent_path_length ?P ?G 2 = Inr 0"
    by (simp add: agent_path_length_def getitem_def upt_rec)
  have third: "truediv 1 3 = Inr (Double False (6004799503160661 / 18014398509481984))"
    by code_simp
  note inst = calculate_metrics_sum_of_costs [OF ne, of ?S ?G "0 :: rat"]
  from inst [THEN conjunct1, THEN mp, OF dom]
  obtain r where r: "calculate_metrics (Some ?P) ?S ?G (0 :: rat) = Inr r" ..
  from inst [THEN conjunct2, THEN spec, THEN mp, OF r]
  obtain ls f where len: "length ls = length ?S"
    and each: "\<forall>i<length ?S. agent_path_length ?P ?G i = Inr (ls ! i)"
    and soc: "dict_get r ''sum_of_costs'' = Some (PyInt (sum_list ls))"
    and div: "truediv (sum_list ls) (int (length ?S)) = Inr f"
    and avg: "dict_get r ''average_path_length'' = Some (PyFloat f)"
    by (elim exE conjE)
  from each a0 a1 a2 have "ls ! 0 = 1" and "ls ! 1 = 0" and "ls ! 2 = 0" by auto
  with len have ls: "ls = [1, 0, 0]"
    by (auto simp: list_eq_iff_nth_eq less_Suc_eq numeral_3_eq_3 numeral_2_eq_2)
  from div third have "f = Double False (6004799503160661 / 18014398509481984)"
    unfolding ls by simp
  with soc avg have "dict_get r ''sum_of_costs'' = Some (PyInt 1)"
    and "dict_get r ''average_path_length'' =
      Some (PyFloat (Double False (6004799503160661 / 18014398509481984)))"
    unfolding ls by simp_all
  with r show ?thesis by (intro exI [of _ r] conjI)
qed

text \<open>
  C6. For a plan of a single configuration in which no agent is at its goal, any
  dictionary the function returns has \<open>success\<close> false, \<open>makespan\<close> 0 and \<open>sum_of_costs\<close>
  equal to \<open>number_of_agents\<close>. A dictionary is returned whenever there is at least one
  agent and the arguments are well formed.
\<close>

theorem single_configuration_metrics:
  assumes "\<forall>i<length starts. c ! i \<noteq> goals ! i"
  shows "(starts \<noteq> [] \<and> well_formed [c] starts goals \<longrightarrow>
            (\<exists>r. calculate_metrics (Some [c]) starts goals ct = Inr r)) \<and>
         (\<forall>r. calculate_metrics (Some [c]) starts goals ct = Inr r \<longrightarrow>
            dict_get r ''success'' = Some (PyBool False) \<and>
            dict_get r ''makespan'' = Some (PyInt 0) \<and>
            dict_get r ''number_of_agents'' = Some (PyInt (int (length starts))) \<and>
            dict_get r ''sum_of_costs'' = Some (PyInt (int (length starts))))"
proof -
  have ne: "[c] \<noteq> []" by simp
  have ret: "\<exists>r. calculate_metrics (Some [c]) starts goals ct = Inr r"
    if "starts \<noteq> [] \<and> well_formed [c] starts goals"
    using that by (simp add: calculate_metrics_returns_iff [OF ne])
  have fields: "dict_get r ''success'' = Some (PyBool False) \<and>
      dict_get r ''makespan'' = Some (PyInt 0) \<and>
      dict_get r ''number_of_agents'' = Some (PyInt (int (length starts))) \<and>
      dict_get r ''sum_of_costs'' = Some (PyInt (int (length starts)))"
    if "calculate_metrics (Some [c]) starts goals ct = Inr r" for r
  proof -
    from calculate_metrics_Inr [OF ne that]
    have sne: "starts \<noteq> []" and r: "r = metrics_value [c] starts goals ct"
      by simp_all
    have "\<forall>i<length starts. spec_path_length [c] (goals ! i) i = 1"
      using assms by (simp add: spec_path_length_single)
    then have sum: "(\<Sum>i\<leftarrow>[0..<length starts]. spec_path_length [c] (goals ! i) i) =
        int (length starts)"
      using sum_list_const_upt [of "length starts"
          "\<lambda>i. spec_path_length [c] (goals ! i) i" 1]
      by simp
    have "0 < length starts" using sne by simp
    with assms have fail: "\<not> (\<forall>i<length starts. last [c] ! i = goals ! i)"
      by auto
    show ?thesis
      unfolding r using sum fail by (simp add: metrics_value_def dict_get_def)
  qed
  from ret fields show ?thesis by blast
qed

text \<open>Two agents, one configuration, neither agent at its goal.\<close>

theorem single_configuration_metrics_witness:
  "\<exists>r. calculate_metrics (Some [[(0, 0), (1, 1)]]) [(0, 0), (1, 1)] [(2, 2), (3, 3)]
          (0 :: rat) = Inr r \<and>
        dict_get r ''success'' = Some (PyBool False) \<and>
        dict_get r ''makespan'' = Some (PyInt 0) \<and>
        dict_get r ''sum_of_costs'' = Some (PyInt 2)"
proof -
  let ?c = "[(0, 0), (1, 1)] :: config"
  let ?G = "[(2, 2), (3, 3)] :: config"
  have dom: "?c \<noteq> [] \<and> well_formed [?c] ?c ?G" by (simp add: well_formed_def)
  have off: "\<forall>i<length ?c. ?c ! i \<noteq> ?G ! i" by (auto simp: less_Suc_eq)
  note inst = single_configuration_metrics [OF off, of "0 :: rat"]
  from inst [THEN conjunct1, THEN mp, OF dom]
  obtain r where r: "calculate_metrics (Some [?c]) ?c ?G (0 :: rat) = Inr r" ..
  from inst [THEN conjunct2, THEN spec, THEN mp, OF r] have "dict_get r ''success'' = Some (PyBool False) \<and>
      dict_get r ''makespan'' = Some (PyInt 0) \<and>
      dict_get r ''number_of_agents'' = Some (PyInt (int (length ?c))) \<and>
      dict_get r ''sum_of_costs'' = Some (PyInt (int (length ?c)))" .
  then have "dict_get r ''success'' = Some (PyBool False)"
    and "dict_get r ''makespan'' = Some (PyInt 0)"
    and "dict_get r ''sum_of_costs'' = Some (PyInt 2)"
    by simp_all
  with r show ?thesis by (intro exI [of _ r] conjI)
qed

text \<open>
  C7. Take two calls whose arguments have the same values, each in a store of its own, at
  whatever addresses and with whatever sharing between the lists. With the same elapsed
  time the two calls have the same outcome, the same exception or the same dictionary;
  with different elapsed times the outcomes still agree on everything but the
  \<open>computation_time\<close> item, which is the elapsed time that was passed in. A call leaves the
  store as it found it, so none of its arguments is changed. The outcome is the one of
  the function on values that the other claims are about.
\<close>

theorem calculate_metrics_pure:
  assumes "represents h pr sa ga plan starts goals"
    and "represents h' pr' sa' ga' plan starts goals"
  shows "fst (calculate_metrics_h pr sa ga ct h) = fst (calculate_metrics_h pr' sa' ga' ct h') \<and>
         strip_time (fst (calculate_metrics_h pr sa ga ct h)) =
           strip_time (fst (calculate_metrics_h pr' sa' ga' ct' h')) \<and>
         (\<forall>r. fst (calculate_metrics_h pr sa ga ct h) = Inr r \<longrightarrow>
            dict_get r ''computation_time'' = Some (PyTime ct)) \<and>
         snd (calculate_metrics_h pr sa ga ct h) = h \<and>
         fst (calculate_metrics_h pr sa ga ct h) = lift (calculate_metrics plan starts goals ct)"
proof -
  have run: "fst (calculate_metrics_h pr sa ga t h) = lift (calculate_metrics plan starts goals t)"
    for t
    by (simp add: calculate_metrics_h_refines [OF assms(1)])
  have run': "fst (calculate_metrics_h pr' sa' ga' t h') =
      lift (calculate_metrics plan starts goals t)" for t
    by (simp add: calculate_metrics_h_refines [OF assms(2)])
  note time = calculate_metrics_time_passthrough [of plan starts goals ct ct']
  have same: "fst (calculate_metrics_h pr sa ga ct h) = fst (calculate_metrics_h pr' sa' ga' ct h')"
    by (simp only: run run')
  have strip: "strip_time (fst (calculate_metrics_h pr sa ga ct h)) =
      strip_time (fst (calculate_metrics_h pr' sa' ga' ct' h'))"
    using time by (simp only: run run' strip_time_lift)
  have field: "dict_get r ''computation_time'' = Some (PyTime ct)"
    if "fst (calculate_metrics_h pr sa ga ct h) = Inr r" for r
  proof -
    from that have "lift (calculate_metrics plan starts goals ct) = Inr r"
      by (simp only: run)
    then have "calculate_metrics plan starts goals ct = Inr r"
      by (cases "calculate_metrics plan starts goals ct") (simp_all add: lift_def)
    with time show ?thesis by blast
  qed
  have frame: "snd (calculate_metrics_h pr sa ga ct h) = h"
    by (rule calculate_metrics_h_frame)
  from same strip field frame run [of ct] show ?thesis by blast
qed

text \<open>
  The plan of two configurations in the two example stores, with elapsed times 1 and 2.
\<close>

theorem calculate_metrics_pure_witness:
  "fst (calculate_metrics_h (Some 0) 1 3 (1 :: rat) heap_shared) =
     fst (calculate_metrics_h (Some 10) 13 14 (1 :: rat) heap_copied) \<and>
   strip_time (fst (calculate_metrics_h (Some 0) 1 3 (1 :: rat) heap_shared)) =
     strip_time (fst (calculate_metrics_h (Some 10) 13 14 (2 :: rat) heap_copied)) \<and>
   snd (calculate_metrics_h (Some 0) 1 3 (1 :: rat) heap_shared) = heap_shared \<and>
   (\<exists>r. fst (calculate_metrics_h (Some 0) 1 3 (1 :: rat) heap_shared) = Inr r \<and>
        dict_get r ''computation_time'' = Some (PyTime 1))"
proof -
  let ?P = "[[(0, 0), (1, 1)], [(0, 1), (1, 1)]] :: plan"
  let ?S = "[(0, 0), (1, 1)] :: config"
  let ?G = "[(0, 1), (1, 1)] :: config"
  have "holds_plan heap_shared 0 ?P"
    unfolding holds_plan_def by (rule exI [of _ "[1, 2]"]) (simp add: heap_shared_def)
  then have r1: "represents heap_shared (Some 0) 1 3 (Some ?P) ?S ?G"
    by (simp add: represents_def heap_shared_def)
  have "holds_plan heap_copied 10 ?P"
    unfolding holds_plan_def by (rule exI [of _ "[11, 12]"]) (simp add: heap_copied_def)
  then have r2: "represents heap_copied (Some 10) 13 14 (Some ?P) ?S ?G"
    by (simp add: represents_def heap_copied_def)
  note inst = calculate_metrics_pure [OF r1 r2, of "1 :: rat" "2 :: rat"]
  from inst have same: "fst (calculate_metrics_h (Some 0) 1 3 (1 :: rat) heap_shared) =
      fst (calculate_metrics_h (Some 10) 13 14 (1 :: rat) heap_copied)"
    by (elim conjE)
  from inst have strip: "strip_time (fst (calculate_metrics_h (Some 0) 1 3 (1 :: rat) heap_shared)) =
      strip_time (fst (calculate_metrics_h (Some 10) 13 14 (2 :: rat) heap_copied))"
    by (elim conjE)
  from inst have frame: "snd (calculate_metrics_h (Some 0) 1 3 (1 :: rat) heap_shared) = heap_shared"
    by (elim conjE)
  from inst have link: "fst (calculate_metrics_h (Some 0) 1 3 (1 :: rat) heap_shared) =
      lift (calculate_metrics (Some ?P) ?S ?G (1 :: rat))"
    by (elim conjE)
  have "?P \<noteq> []" and "well_formed ?P ?S ?G" and "?S \<noteq> []"
    by (simp_all add: well_formed_def)
  then have "calculate_metrics (Some ?P) ?S ?G (1 :: rat) = Inr (metrics_value ?P ?S ?G (1 :: rat))"
    by (rule calculate_metrics_returns)
  with link obtain r where r: "fst (calculate_metrics_h (Some 0) 1 3 (1 :: rat) heap_shared) = Inr r"
    by (simp add: lift_def)
  from inst [THEN conjunct2, THEN conjunct2, THEN conjunct1, THEN spec, THEN mp, OF r]
  have "dict_get r ''computation_time'' = Some (PyTime 1)" .
  with r have "\<exists>r. fst (calculate_metrics_h (Some 0) 1 3 (1 :: rat) heap_shared) = Inr r \<and>
      dict_get r ''computation_time'' = Some (PyTime 1)"
    by (intro exI [of _ r] conjI)
  with same strip frame show ?thesis by (intro conjI)
qed

text \<open>
  C9. With a non-empty plan and no agents the division raises \<open>ZeroDivisionError\<close>, so
  no dictionary is returned. Whenever a dictionary is returned, the plan is \<open>None\<close> or
  empty, or there is at least one agent.
\<close>

theorem calculate_metrics_no_agents:
  "(plan \<noteq> [] \<longrightarrow> calculate_metrics (Some plan) [] goals ct = Inl ZeroDivisionError) \<and>
   (\<forall>r. calculate_metrics p starts goals ct = Inr r \<longrightarrow>
      p = None \<or> p = Some [] \<or> 1 \<le> length starts)"
proof (intro conjI impI allI)
  assume ne: "plan \<noteq> []"
  then show "calculate_metrics (Some plan) [] goals ct = Inl ZeroDivisionError"
    by (simp add: calculate_metrics_def metrics_of_plan_def getitem_last truediv_def)
next
  fix r
  assume r: "calculate_metrics p starts goals ct = Inr r"
  show "p = None \<or> p = Some [] \<or> 1 \<le> length starts"
  proof (cases p)
    case None
    then show ?thesis by simp
  next
    case (Some pl)
    show ?thesis
    proof (cases "pl = []")
      case True
      with Some show ?thesis by simp
    next
      case False
      with r Some have "metrics_of_plan pl starts goals ct = Inr r"
        by (simp add: calculate_metrics_def)
      from metrics_of_plan_Inr [OF this] have "starts \<noteq> []" by simp
      then show ?thesis by (simp add: Suc_le_eq)
    qed
  qed
qed

text \<open>
  The plan of one empty configuration with no agents raises; a plan with one agent
  returns.
\<close>

theorem calculate_metrics_no_agents_witness:
  "calculate_metrics (Some [[]]) [] [] (0 :: rat) = Inl ZeroDivisionError \<and>
   (\<exists>r. calculate_metrics (Some [[(0, 0)]]) [(0, 0)] [(0, 0)] (0 :: rat) = Inr r) \<and>
   1 \<le> length [(0, 0) :: position]"
proof -
  have ret: "\<exists>r. calculate_metrics (Some [[(0, 0)]]) [(0, 0)] [(0, 0)] (0 :: rat) = Inr r"
    using calculate_metrics_returns [of "[[(0, 0)]]" "[(0, 0)]" "[(0, 0)]" "0 :: rat"]
    by (simp add: well_formed_def)
  have "calculate_metrics (Some [[]]) [] [] (0 :: rat) = Inl ZeroDivisionError"
    using calculate_metrics_no_agents [of "[[]]" "[]" "0 :: rat" None "[]"] by simp
  with ret show ?thesis by simp
qed

text \<open>
  C10. For a non-empty plan on which the function returns a dictionary with \<open>success\<close>
  true, the path length of every agent is at most the makespan \<open>len(plan) - 1\<close>, and
  \<open>sum_of_costs\<close> is at most the number of agents times the makespan.
\<close>

theorem success_bounds_costs:
  assumes "plan \<noteq> []"
    and "calculate_metrics (Some plan) starts goals ct = Inr r"
    and "dict_get r ''success'' = Some (PyBool True)"
  shows "(\<forall>i<length starts.
            \<exists>len. agent_path_length plan goals i = Inr len \<and> len \<le> int (length plan) - 1) \<and>
         dict_get r ''makespan'' = Some (PyInt (int (length plan) - 1)) \<and>
         (\<exists>s. dict_get r ''sum_of_costs'' = Some (PyInt s) \<and>
              s \<le> int (length starts) * (int (length plan) - 1))"
proof -
  have "\<exists>r. calculate_metrics (Some plan) starts goals ct = Inr r"
    using assms(2) by (rule exI)
  then have dom: "starts \<noteq> []" "well_formed plan starts goals"
    by (simp_all add: calculate_metrics_returns_iff [OF assms(1)])
  from calculate_metrics_returns [OF assms(1) dom(2,1), of ct] assms(2)
  have r: "r = metrics_value plan starts goals ct" by simp
  with assms(3) have fin: "\<forall>i<length starts. last plan ! i = goals ! i"
    by (simp add: metrics_value_def dict_get_def)
  have bound: "\<forall>i<length starts.
      spec_path_length plan (goals ! i) i \<le> int (length plan) - 1"
    using fin spec_path_length_le_makespan [OF assms(1)] by blast
  have each: "agent_path_length plan goals i = Inr (spec_path_length plan (goals ! i) i)"
    if "i < length starts" for i
  proof -
    have "i < length goals" and "\<forall>c \<in> set plan. i < length c"
      using that dom(2) by (auto simp: well_formed_def)
    then show ?thesis by (rule agent_path_length_returns)
  qed
  have "(\<Sum>i\<leftarrow>[0..<length starts]. spec_path_length plan (goals ! i) i)
      \<le> int (length starts) * (int (length plan) - 1)"
    using bound by (rule sum_list_bound_upt)
  then show ?thesis
    using each bound unfolding r by (simp add: metrics_value_def dict_get_def)
qed

text \<open>Two agents, makespan 1, both at their goals in the end: the sum of costs is at most 2.\<close>

theorem success_bounds_costs_witness:
  "\<exists>r. calculate_metrics (Some [[(0, 0), (1, 1)], [(0, 1), (1, 1)]])
          [(0, 0), (1, 1)] [(0, 1), (1, 1)] (0 :: rat) = Inr r \<and>
        dict_get r ''success'' = Some (PyBool True) \<and>
        dict_get r ''makespan'' = Some (PyInt 1) \<and>
        (\<exists>s. dict_get r ''sum_of_costs'' = Some (PyInt s) \<and> s \<le> 2 * 1)"
proof -
  let ?P = "[[(0, 0), (1, 1)], [(0, 1), (1, 1)]] :: plan"
  let ?S = "[(0, 0), (1, 1)] :: config"
  let ?G = "[(0, 1), (1, 1)] :: config"
  have ne: "?P \<noteq> []" and wf: "well_formed ?P ?S ?G" and sne: "?S \<noteq> []"
    by (simp_all add: well_formed_def)
  have fin: "(\<forall>i<length ?S. last ?P ! i = ?G ! i) = True"
    by (auto simp: less_Suc_eq)
  obtain r where r: "calculate_metrics (Some ?P) ?S ?G (0 :: rat) = Inr r"
    and s: "dict_get r ''success'' = Some (PyBool True)"
    using calculate_metrics_returns [OF ne wf sne, of "0 :: rat"] fin
    by (simp add: metrics_value_def dict_get_def)
  note bounds = success_bounds_costs [OF ne r s]
  have "dict_get r ''makespan'' = Some (PyInt (int (length ?P) - 1))"
    using bounds by (elim conjE)
  moreover have "\<exists>s. dict_get r ''sum_of_costs'' = Some (PyInt s) \<and>
           s \<le> int (length ?S) * (int (length ?P) - 1)"
    using bounds by (elim conjE)
  ultimately
  have "dict_get r ''makespan'' = Some (PyInt 1)"
    and "\<exists>s. dict_get r ''sum_of_costs'' = Some (PyInt s) \<and> s \<le> 2 * 1"
    by simp_all
  with r s show ?thesis by (intro exI [of _ r] conjI)
qed

section \<open>Claim about the validator\<close>

text \<open>
  C8. As worded, the claim does not hold of the validator of section 4.1: the cell
  validity check looks at every position of a target configuration, so an agent that
  waits on a start cell that is not walkable is rejected with \<open>BLOCKED_CELL\<close>, although
  the plan meets every condition the claim lists. With walkable start cells it holds.
  Take a non-empty plan whose configurations, like \<open>starts\<close> and \<open>goals\<close>, have one entry
  per agent (the precondition of section 4.1) and whose start cells are walkable. If the
  initial configuration equals \<open>starts\<close>, every transition leaves each agent where it is or
  moves it to a walkable one of its four neighbours, no configuration holds two agents in
  one cell, no two agents swap cells across a transition, and the final configuration
  equals \<open>goals\<close>, then the validator returns success.
\<close>

theorem valid_plan_accepted:
  assumes ne: "plan \<noteq> []"
    and len_goals: "length goals = length starts"
    and len_cfg: "\<forall>c \<in> set plan. length c = length starts"
    and init: "hd plan = starts"
    and walk0: "\<forall>p \<in> set starts. is_walkable g p"
    and moves: "\<forall>t. Suc t < length plan \<longrightarrow>
        (\<forall>i<length starts. plan ! Suc t ! i = plan ! t ! i \<or>
           plan ! Suc t ! i \<in> neighbors4 g (plan ! t ! i) \<and>
           is_walkable g (plan ! Suc t ! i))"
    and vertex: "\<forall>c \<in> set plan. distinct c"
    and swap: "\<forall>t. Suc t < length plan \<longrightarrow>
        (\<forall>i<length starts. \<forall>j<length starts. i \<noteq> j \<longrightarrow>
           \<not> (plan ! t ! i = plan ! Suc t ! j \<and> plan ! t ! j = plan ! Suc t ! i))"
    and fin: "last plan = goals"
  shows "is_valid_mapf_solution g starts goals plan = Inr Success"
proof -
  let ?n = "length starts"
  have step: "check_transition g ?n (0 + k) (plan ! k) (plan ! Suc k) = Success"
    if k: "Suc k < length plan" for k
  proof (rule check_transition_Success)
    show "\<forall>i<?n. is_walkable g (plan ! Suc k ! i)"
      using plan_walkable [OF ne len_cfg init walk0 moves k] .
    show "\<forall>i<?n. plan ! Suc k ! i = plan ! k ! i \<or>
        plan ! Suc k ! i \<in> neighbors4 g (plan ! k ! i)"
      using moves k by blast
    have mem: "plan ! Suc k \<in> set plan" using k by simp
    with vertex len_cfg have "distinct (plan ! Suc k)" and "length (plan ! Suc k) = ?n"
      by blast+
    then show "\<forall>i<?n. \<forall>j<?n. j \<noteq> i \<longrightarrow> plan ! Suc k ! j \<noteq> plan ! Suc k ! i"
      by (simp add: nth_eq_iff_index_eq)
    show "\<forall>i<?n. \<forall>j<?n. j \<noteq> i \<longrightarrow>
        \<not> (plan ! k ! i = plan ! Suc k ! j \<and> plan ! k ! j = plan ! Suc k ! i)"
      using swap k by blast
  qed
  then have trans: "check_transitions g ?n 0 plan = Success"
    by (intro check_transitions_Success) blast
  have late: "filter (\<lambda>i. last plan ! i \<noteq> goals ! i) [0..<?n] = []"
    using fin by (simp add: filter_empty_conv)
  have "validate g starts goals plan = Success"
    using ne init trans late by (simp add: validate_def)
  then show ?thesis
    using len_goals len_cfg by (simp add: is_valid_mapf_solution_def)
qed

text \<open>
  On the open grid, one agent steps from (0, 0) to its goal (0, 1) while the other waits
  on its goal (2, 2).
\<close>

theorem valid_plan_accepted_witness:
  "is_valid_mapf_solution open_grid [(0, 0), (2, 2)] [(0, 1), (2, 2)]
     [[(0, 0), (2, 2)], [(0, 1), (2, 2)]] = Inr Success"
proof -
  let ?S = "[(0, 0), (2, 2)] :: config"
  let ?G = "[(0, 1), (2, 2)] :: config"
  let ?P = "[?S, ?G] :: plan"
  have two: "Suc t < length ?P \<longleftrightarrow> t = 0" for t by auto
  show ?thesis
  proof (rule valid_plan_accepted)
    show "?P \<noteq> []" by simp
    show "length ?G = length ?S" by simp
    show "\<forall>c \<in> set ?P. length c = length ?S" by simp
    show "hd ?P = ?S" by simp
    show "\<forall>p \<in> set ?S. is_walkable open_grid p" by (simp add: open_grid_def)
    show "\<forall>t. Suc t < length ?P \<longrightarrow>
        (\<forall>i<length ?S. ?P ! Suc t ! i = ?P ! t ! i \<or>
           ?P ! Suc t ! i \<in> neighbors4 open_grid (?P ! t ! i) \<and>
           is_walkable open_grid (?P ! Suc t ! i))"
      unfolding two by (simp add: open_grid_def less_Suc_eq)
    show "\<forall>c \<in> set ?P. distinct c" by simp
    show "\<forall>t. Suc t < length ?P \<longrightarrow>
        (\<forall>i<length ?S. \<forall>j<length ?S. i \<noteq> j \<longrightarrow>
           \<not> (?P ! t ! i = ?P ! Suc t ! j \<and> ?P ! t ! j = ?P ! Suc t ! i))"
      unfolding two by (auto simp: less_Suc_eq)
    show "last ?P = ?G" by simp
  qed
qed

text \<open>
  The claim without the walkable start cells fails: on the grid without a walkable cell,
  one agent that starts on its goal (0, 0) and waits there meets every condition listed
  and is rejected.
\<close>

theorem valid_plan_rejected_counterexample:
  "is_valid_mapf_solution blocked_grid [(0, 0)] [(0, 0)] [[(0, 0)], [(0, 0)]] =
     Inr (Failure BLOCKED_CELL 1 [0]) \<and>
   \<not> (\<forall>g starts goals plan.
        plan \<noteq> [] \<and> length goals = length starts \<and>
        (\<forall>c \<in> set plan. length c = length starts) \<and>
        hd plan = starts \<and>
        (\<forall>t. Suc t < length plan \<longrightarrow>
           (\<forall>i<length starts. plan ! Suc t ! i = plan ! t ! i \<or>
              plan ! Suc t ! i \<in> neighbors4 g (plan ! t ! i) \<and>
              is_walkable g (plan ! Suc t ! i))) \<and>
        (\<forall>c \<in> set plan. distinct c) \<and>
        (\<forall>t. Suc t < length plan \<longrightarrow>
           (\<forall>i<length starts. \<forall>j<length starts. i \<noteq> j \<longrightarrow>
              \<not> (plan ! t ! i = plan ! Suc t ! j \<and> plan ! t ! j = plan ! Suc t ! i))) \<and>
        last plan = goals \<longrightarrow>
        is_valid_mapf_solution g starts goals plan = Inr Success)"
proof (rule conjI)
  show rejected: "is_valid_mapf_solution blocked_grid [(0, 0)] [(0, 0)] [[(0, 0)], [(0, 0)]] =
      Inr (Failure BLOCKED_CELL 1 [0])"
    by (rule blocked_start_rejected)
  show "\<not> (\<forall>g starts goals plan.
        plan \<noteq> [] \<and> length goals = length starts \<and>
        (\<forall>c \<in> set plan. length c = length starts) \<and>
        hd plan = starts \<and>
        (\<forall>t. Suc t < length plan \<longrightarrow>
           (\<forall>i<length starts. plan ! Suc t ! i = plan ! t ! i \<or>
              plan ! Suc t ! i \<in> neighbors4 g (plan ! t ! i) \<and>
              is_walkable g (plan ! Suc t ! i))) \<and>
        (\<forall>c \<in> set plan. distinct c) \<and>
        (\<forall>t. Suc t < length plan \<longrightarrow>
           (\<forall>i<length starts. \<forall>j<length starts. i \<noteq> j \<longrightarrow>
              \<not> (plan ! t ! i = plan ! Suc t ! j \<and> plan ! t ! j = plan ! Suc t ! i))) \<and>
        last plan = goals \<longrightarrow>
        is_valid_mapf_solution g starts goals plan = Inr Success)"
  proof
    assume claim: "\<forall>g starts goals plan.
        plan \<noteq> [] \<and> length goals = length starts \<and>
        (\<forall>c \<in> set plan. length c = length starts) \<and>
        hd plan = starts \<and>
        (\<forall>t. Suc t < length plan \<longrightarrow>
           (\<forall>i<length starts. plan ! Suc t ! i = plan ! t ! i \<or>
              plan ! Suc t ! i \<in> neighbors4 g (plan ! t ! i) \<and>
              is_walkable g (plan ! Suc t ! i))) \<and>
        (\<forall>c \<in> set plan. distinct c) \<and>
        (\<forall>t. Suc t < length plan \<longrightarrow>
           (\<forall>i<length starts. \<forall>j<length starts. i \<noteq> j \<longrightarrow>
              \<not> (plan ! t ! i = plan ! Suc t ! j \<and> plan ! t ! j = plan ! Suc t ! i))) \<and>
        last plan = goals \<longrightarrow>
        is_valid_mapf_solution g starts goals plan = Inr Success"
    let ?c = "[(0, 0)] :: config"
    have two: "Suc t < length [?c, ?c] \<longleftrightarrow> t = 0" for t by auto
    have "is_valid_mapf_solution blocked_grid ?c ?c [?c, ?c] = Inr Success"
      by (rule claim [THEN spec, THEN spec, THEN spec, THEN spec, THEN mp])
         (simp add: two)
    with blocked_start_rejected show False by simp
  qed
qed

end
